theory Spec2Isabelle
  imports
    Main
    "HOL-Library.Word"
    "HOL-Library.Char_ord"
    "HOL-Library.List_Lexorder"
    "HOL-Library.Multiset"
begin

unbundle bit_operations_syntax

section \<open>Errors and outcomes\<close>

text \<open>
  Go error values. \<open>Opaque\<close> is an error produced by a collaborator (the file system,
  the SQL driver) with its message; \<open>WrapError msg e\<close> is the value built by
  \<^verbatim>\<open>fmt.Errorf("...: %w", e)\<close> (the rendered message and the wrapped error);
  \<open>JoinError es\<close> is the value built by \<^verbatim>\<open>errors.Join\<close> from the non-nil errors.
  A Go \<^verbatim>\<open>error\<close> that may be nil is an \<open>error option\<close>.
\<close>

datatype error = Opaque string | WrapError string error | JoinError "error list"

fun join_lines :: "string list \<Rightarrow> string" where
  "join_lines [] = []"
| "join_lines [l] = l"
| "join_lines (l # ls) = l @ [CHR 0x0A] @ join_lines ls"

fun Error :: "error \<Rightarrow> string" where
  "Error (Opaque s) = s"
| "Error (WrapError msg e) = msg"
| "Error (JoinError es) = join_lines (map Error es)"

fun Unwrap :: "error \<Rightarrow> error option" where
  "Unwrap (WrapError msg e) = Some e"
| "Unwrap e = None"

text \<open>\<^verbatim>\<open>fmt.Errorf(pfx + ": %w", err)\<close>: the message is the prefix, a colon, a space
  and the message of the wrapped error.\<close>

definition Errorf_w :: "string \<Rightarrow> error \<Rightarrow> error" where
  "Errorf_w pfx e = WrapError (pfx @ '': '' @ Error e) e"

text \<open>\<^verbatim>\<open>errors.Join\<close>: nil arguments are dropped; the result is nil when none is left.\<close>

definition errors_Join :: "error option list \<Rightarrow> error option" where
  "errors_Join errs =
     (let es = List.map_filter id errs
      in if es = [] then None else Some (JoinError es))"

text \<open>
  How a call ends: it returns a value, it panics with an error value, or it does not return
  because it waits on a lock that is held.
\<close>

datatype 'a outcome = Return 'a | Panic error | Blocked

section \<open>Fingerprints\<close>

text \<open>\<^verbatim>\<open>hex.EncodeToString\<close>: two characters of the table \<^verbatim>\<open>0123456789abcdef\<close> for
  each byte, high nibble first.\<close>

definition hextable :: string where
  "hextable = ''0123456789abcdef''"

definition hex_byte :: "8 word \<Rightarrow> string" where
  "hex_byte v = [hextable ! unat (drop_bit 4 v), hextable ! unat (v AND 0x0f)]"

definition hex_EncodeToString :: "8 word list \<Rightarrow> string" where
  "hex_EncodeToString src = concat (map hex_byte src)"

text \<open>The conversion \<^verbatim>\<open>[]byte(name)\<close>.\<close>

definition bytes :: "string \<Rightarrow> 8 word list" where
  "bytes s = map of_char s"

text \<open>
  \<^verbatim>\<open>hexsum := hex.EncodeToString(sha256.Sum256([]byte(name)))\<close>. The digest function
  \<^verbatim>\<open>sha256.Sum256\<close> belongs to the standard library and is a parameter here.
\<close>

definition hexsum_of :: "(8 word list \<Rightarrow> 8 word list) \<Rightarrow> string \<Rightarrow> string" where
  "hexsum_of Sum256 name = hex_EncodeToString (Sum256 (bytes name))"

section \<open>Migrations and their discovery\<close>

record migration =
  Sum :: string
  Name :: string
  SQL :: string

text \<open>The file system collaborator \<^verbatim>\<open>fs.FS\<close>, through the two calls made on it.\<close>

record FS =
  Glob :: "string \<Rightarrow> error + string list"
  ReadFile :: "string \<Rightarrow> error + string"

text \<open>
  A Go \<^verbatim>\<open>map[string]migration\<close> as an association list with distinct keys;
  \<^verbatim>\<open>stmts[k] = v\<close> replaces the entry of a key that is present and adds one otherwise.
\<close>

type_synonym stmts = "(string \<times> migration) list"

fun store :: "string \<Rightarrow> migration \<Rightarrow> stmts \<Rightarrow> stmts" where
  "store k v [] = [(k, v)]"
| "store k v ((k', v') # kvs) = (if k = k' then (k, v) # kvs else (k', v') # store k v kvs)"

fun load_loop ::
  "(8 word list \<Rightarrow> 8 word list) \<Rightarrow> FS \<Rightarrow> string list \<Rightarrow> stmts \<Rightarrow> error + stmts" where
  "load_loop Sum256 fsys [] stmts = Inr stmts"
| "load_loop Sum256 fsys (name # names) stmts =
     (case ReadFile fsys name of
        Inl err \<Rightarrow> Inl err
      | Inr data \<Rightarrow>
          (let hexsum = hexsum_of Sum256 name
           in load_loop Sum256 fsys names
                (store hexsum \<lparr>Sum = hexsum, Name = name, SQL = data\<rparr> stmts)))"

definition loadMigrations ::
  "(8 word list \<Rightarrow> 8 word list) \<Rightarrow> FS \<Rightarrow> string \<Rightarrow> error + stmts" where
  "loadMigrations Sum256 fsys pat =
     (case Glob fsys pat of
        Inl err \<Rightarrow> Inl err
      | Inr names \<Rightarrow> load_loop Sum256 fsys names [])"

section \<open>The SQL collaborator\<close>

text \<open>
  \<^verbatim>\<open>context.Context\<close>, as far as the calls below can observe it: not done, or done.
  The code hands it to every call on the connection and never inspects it itself.
\<close>

datatype Context = Background | Canceled

text \<open>
  The result of \<^verbatim>\<open>QueryContext\<close>: what \<^verbatim>\<open>rows.Scan\<close> gives for each row that
  \<^verbatim>\<open>rows.Next\<close> delivers, and what \<^verbatim>\<open>rows.Err\<close> reports once \<^verbatim>\<open>Next\<close> has
  returned false.
\<close>

record rows =
  scans :: "(error + string) list"
  rows_Err :: "error option"

text \<open>
  \<^verbatim>\<open>database/sql\<close> over a database state \<open>'d\<close>: \<^verbatim>\<open>db.Conn\<close>, and on the
  connection \<^verbatim>\<open>ExecContext\<close> (statement and arguments), \<^verbatim>\<open>QueryContext\<close> and
  \<^verbatim>\<open>Close\<close>. Each call may change the state, also when it fails.
\<close>

record 'd driver =
  Conn :: "Context \<Rightarrow> 'd \<Rightarrow> error option \<times> 'd"
  ExecContext :: "Context \<Rightarrow> string \<Rightarrow> string list \<Rightarrow> 'd \<Rightarrow> error option \<times> 'd"
  QueryContext :: "Context \<Rightarrow> string \<Rightarrow> 'd \<Rightarrow> (error + rows) \<times> 'd"
  Close :: "'d \<Rightarrow> 'd"

definition sql_create :: string where
  "sql_create = ''CREATE TABLE IF NOT EXISTS flits (sum CHAR(64) PRIMARY KEY);''"

definition sql_select :: string where
  "sql_select = ''SELECT sum FROM flits''"

definition sql_insert :: string where
  "sql_insert = ''INSERT INTO flits (sum) VALUES (?)''"

definition sql_get_lock :: string where
  "sql_get_lock = ''SELECT GET_LOCK('' @ [CHR 0x27] @ ''flit'' @ [CHR 0x27] @ '', -1)''"

definition sql_release_lock :: string where
  "sql_release_lock = ''SELECT RELEASE_LOCK('' @ [CHR 0x27] @ ''flit'' @ [CHR 0x27] @ '')''"

section \<open>Program state\<close>

text \<open>
  What a call of \<^verbatim>\<open>Migrate\<close> reads and writes: the database behind the connection,
  the named result \<^verbatim>\<open>applied\<close> (the closure handed to the guard appends to it), and
  the \<^verbatim>\<open>sync.Mutex\<close> of the default guard (\<open>True\<close>: locked).
\<close>

record 'd state =
  dbs :: 'd
  applied :: "string list"
  mu :: bool

type_synonym 'd critical = "Context \<Rightarrow> 'd state \<Rightarrow> error option outcome \<times> 'd state"

type_synonym 'd GuardFunc =
  "Context \<Rightarrow> 'd driver \<Rightarrow> 'd critical \<Rightarrow> 'd state \<Rightarrow> error option outcome \<times> 'd state"

section \<open>Guards\<close>

text \<open>
  \<^verbatim>\<open>GuardMySQL\<close>. A failed \<^verbatim>\<open>GET_LOCK\<close> statement returns its error at once. Otherwise
  the deferred function runs when \<open>f\<close> returns and when \<open>f\<close> panics: it executes
  \<^verbatim>\<open>RELEASE_LOCK\<close> and joins its error with the named result.
\<close>

definition GuardMySQL :: "'d GuardFunc" where
  "GuardMySQL ctx conn f s =
     (case ExecContext conn ctx sql_get_lock [] (dbs s) of
        (Some err, d1) \<Rightarrow> (Return (Some err), s\<lparr>dbs := d1\<rparr>)
      | (None, d1) \<Rightarrow>
          (case f ctx (s\<lparr>dbs := d1\<rparr>) of
             (Return err, s2) \<Rightarrow>
               (let (re, d3) = ExecContext conn ctx sql_release_lock [] (dbs s2)
                in (Return (errors_Join [err, re]), s2\<lparr>dbs := d3\<rparr>))
           | (Panic p, s2) \<Rightarrow>
               (let (re, d3) = ExecContext conn ctx sql_release_lock [] (dbs s2)
                in (Panic p, s2\<lparr>dbs := d3\<rparr>))
           | (Blocked, s2) \<Rightarrow> (Blocked, s2)))"

text \<open>
  \<^verbatim>\<open>mutexGuard.Guard\<close>. \<^verbatim>\<open>g.Lock()\<close> takes no context: while the mutex is locked the
  call waits. \<^verbatim>\<open>g.Unlock()\<close> is deferred, so it runs when \<open>f\<close> returns or panics.
\<close>

definition mutexGuard_Guard :: "'d GuardFunc" where
  "mutexGuard_Guard ctx conn f s =
     (if mu s then (Blocked, s)
      else (case f ctx (s\<lparr>mu := True\<rparr>) of
              (Return err, s2) \<Rightarrow> (Return err, s2\<lparr>mu := False\<rparr>)
            | (Panic p, s2) \<Rightarrow> (Panic p, s2\<lparr>mu := False\<rparr>)
            | (Blocked, s2) \<Rightarrow> (Blocked, s2)))"

section \<open>The migrator\<close>

text \<open>
  The two things the run time decides: the digest function, and the order in which
  \<^verbatim>\<open>range\<close> visits the entries of a map (unspecified in Go; some rearrangement of the
  entries).
\<close>

record runtime =
  Sum256 :: "8 word list \<Rightarrow> 8 word list"
  range_order :: "stmts \<Rightarrow> stmts"

record 'd Migrator =
  db :: "'d driver"
  fs :: FS
  glob :: string
  guard :: "'d GuardFunc"

text \<open>
  A \<^verbatim>\<open>ConfigOption\<close> changes the configuration. \<^verbatim>\<open>New\<close> starts from the default
  guard and the pattern \<^verbatim>\<open>*.sql\<close> and applies the options in their order.
\<close>

type_synonym 'd ConfigOption = "'d Migrator \<Rightarrow> 'd Migrator"

definition WithGlob :: "string \<Rightarrow> 'd ConfigOption" where
  "WithGlob g c = c\<lparr>glob := g\<rparr>"

definition WithGuard :: "'d GuardFunc \<Rightarrow> 'd ConfigOption" where
  "WithGuard g c = c\<lparr>guard := g\<rparr>"

definition New :: "'d driver \<Rightarrow> FS \<Rightarrow> 'd ConfigOption list \<Rightarrow> 'd Migrator" where
  "New d fsys options =
     fold (\<lambda>opt m. opt m) options
       \<lparr>db = d, fs = fsys, glob = ''*.sql'', guard = mutexGuard_Guard\<rparr>"

text \<open>
  \<^verbatim>\<open>getCompletedMigrations\<close>. A failed query panics; a failed scan and a non-nil
  \<^verbatim>\<open>rows.Err()\<close> are returned.
\<close>

fun scan_loop :: "(error + string) list \<Rightarrow> string list \<Rightarrow> error + string list" where
  "scan_loop [] completed = Inr completed"
| "scan_loop (Inl err # rest) completed = Inl err"
| "scan_loop (Inr sm # rest) completed = scan_loop rest (completed @ [sm])"

definition getCompletedMigrations ::
  "'d driver \<Rightarrow> Context \<Rightarrow> 'd \<Rightarrow> (string list \<times> error option) outcome \<times> 'd" where
  "getCompletedMigrations conn ctx d =
     (case QueryContext conn ctx sql_select d of
        (Inl err, d1) \<Rightarrow> (Panic err, d1)
      | (Inr rs, d1) \<Rightarrow>
          (case scan_loop (scans rs) [] of
             Inl err \<Rightarrow> (Return ([], Some err), d1)
           | Inr completed \<Rightarrow>
               (case rows_Err rs of
                  Some err \<Rightarrow> (Return ([], Some err), d1)
                | None \<Rightarrow> (Return (completed, None), d1))))"

text \<open>
  The pending list: the entries of the map, in the order \<^verbatim>\<open>range\<close> visits them, whose
  key is not among the completed sums.
\<close>

definition pending_of :: "runtime \<Rightarrow> stmts \<Rightarrow> string list \<Rightarrow> migration list" where
  "pending_of rt migrations completed =
     map snd (filter (\<lambda>(sm, m). sm \<notin> set completed) (range_order rt migrations))"

text \<open>
  \<^verbatim>\<open>strings.Compare\<close>: the strings are compared byte by byte, a proper prefix is
  smaller; the result is \<open>-1\<close>, \<open>0\<close> or \<open>1\<close>.
\<close>

fun strings_Compare :: "string \<Rightarrow> string \<Rightarrow> int" where
  "strings_Compare [] [] = 0"
| "strings_Compare [] (y # ys) = - 1"
| "strings_Compare (x # xs) [] = 1"
| "strings_Compare (x # xs) (y # ys) =
     (if (of_char x :: nat) < of_char y then - 1
      else if (of_char y :: nat) < of_char x then 1
      else strings_Compare xs ys)"

text \<open>
  \<^verbatim>\<open>slices.SortFunc\<close> sorts in ascending order as the comparison says and promises no
  stability. It is taken here as insertion sort; the pending list never holds two migrations
  of one name, and then every sorting algorithm gives the same list (see
  \<open>sort_pending_unique\<close> below).
\<close>

fun insert_cmp :: "('a \<Rightarrow> 'a \<Rightarrow> int) \<Rightarrow> 'a \<Rightarrow> 'a list \<Rightarrow> 'a list" where
  "insert_cmp cmp x [] = [x]"
| "insert_cmp cmp x (y # ys) = (if cmp x y \<le> 0 then x # y # ys else y # insert_cmp cmp x ys)"

definition slices_SortFunc :: "('a \<Rightarrow> 'a \<Rightarrow> int) \<Rightarrow> 'a list \<Rightarrow> 'a list" where
  "slices_SortFunc cmp xs = foldr (insert_cmp cmp) xs []"

definition sort_pending :: "migration list \<Rightarrow> migration list" where
  "sort_pending pending = slices_SortFunc (\<lambda>a b. strings_Compare (Name a) (Name b)) pending"

text \<open>The loop over the sorted pending list.\<close>

fun apply_loop ::
  "'d driver \<Rightarrow> Context \<Rightarrow> migration list \<Rightarrow> 'd state \<Rightarrow> error option \<times> 'd state" where
  "apply_loop conn ctx [] s = (None, s)"
| "apply_loop conn ctx (m # ms) s =
     (case ExecContext conn ctx (SQL m) [] (dbs s) of
        (Some err, d1) \<Rightarrow> (Some (Errorf_w (''apply '' @ Name m) err), s\<lparr>dbs := d1\<rparr>)
      | (None, d1) \<Rightarrow>
          (case ExecContext conn ctx sql_insert [Sum m] d1 of
             (Some err, d2) \<Rightarrow> (Some (Errorf_w (''record '' @ Name m) err), s\<lparr>dbs := d2\<rparr>)
           | (None, d2) \<Rightarrow>
               apply_loop conn ctx ms (s\<lparr>dbs := d2, applied := applied s @ [Name m]\<rparr>)))"

text \<open>The function literal that \<^verbatim>\<open>Migrate\<close> hands to the guard.\<close>

definition critical_section :: "runtime \<Rightarrow> stmts \<Rightarrow> 'd driver \<Rightarrow> 'd critical" where
  "critical_section rt migrations conn ctx s =
     (case ExecContext conn ctx sql_create [] (dbs s) of
        (Some err, d1) \<Rightarrow> (Return (Some (Errorf_w ''create flits table'' err)), s\<lparr>dbs := d1\<rparr>)
      | (None, d1) \<Rightarrow>
          (case getCompletedMigrations conn ctx d1 of
             (Panic p, d2) \<Rightarrow> (Panic p, s\<lparr>dbs := d2\<rparr>)
           | (Blocked, d2) \<Rightarrow> (Blocked, s\<lparr>dbs := d2\<rparr>)
           | (Return (completed, Some err), d2) \<Rightarrow> (Return (Some err), s\<lparr>dbs := d2\<rparr>)
           | (Return (completed, None), d2) \<Rightarrow>
               (let pending = sort_pending (pending_of rt migrations completed);
                    (err, s3) = apply_loop conn ctx pending (s\<lparr>dbs := d2\<rparr>)
                in (Return err, s3))))"

text \<open>
  \<^verbatim>\<open>Migrate\<close>. The named result \<^verbatim>\<open>applied\<close> starts as nil. \<^verbatim>\<open>conn.Close()\<close> is
  deferred once the connection is there, so it runs when the guard returns or panics.
\<close>

definition Migrate ::
  "runtime \<Rightarrow> 'd Migrator \<Rightarrow> Context \<Rightarrow> 'd state
     \<Rightarrow> (string list \<times> error option) outcome \<times> 'd state" where
  "Migrate rt m ctx s0 =
     (let s = s0\<lparr>applied := []\<rparr>
      in case loadMigrations (Sum256 rt) (fs m) (glob m) of
           Inl err \<Rightarrow> (Return ([], Some err), s)
         | Inr migrations \<Rightarrow>
             (case Conn (db m) ctx (dbs s) of
                (Some err, d1) \<Rightarrow> (Return ([], Some err), s\<lparr>dbs := d1\<rparr>)
              | (None, d1) \<Rightarrow>
                  (case guard m ctx (db m) (critical_section rt migrations (db m)) (s\<lparr>dbs := d1\<rparr>) of
                     (Return err, s2) \<Rightarrow>
                       (Return (applied s2, err), s2\<lparr>dbs := Close (db m) (dbs s2)\<rparr>)
                   | (Panic p, s2) \<Rightarrow> (Panic p, s2\<lparr>dbs := Close (db m) (dbs s2)\<rparr>)
                   | (Blocked, s2) \<Rightarrow> (Blocked, s2))))"

section \<open>A reference database\<close>

text \<open>
  A database that behaves as the three tracking statements say: the table \<^verbatim>\<open>flits\<close>
  is absent (\<open>None\<close>) or holds its rows in insertion order, \<^verbatim>\<open>sum\<close> is a primary key,
  and every other statement acts on the rest of the database through \<open>effect\<close>, which
  may fail and does not touch the table. Every call fails when the context is done.
\<close>

record 'u memdb =
  flits :: "string list option"
  user :: 'u

definition ctx_error :: error where
  "ctx_error = Opaque ''context canceled''"

definition mem_Exec ::
  "(string \<Rightarrow> 'u \<Rightarrow> error + 'u) \<Rightarrow> Context \<Rightarrow> string \<Rightarrow> string list \<Rightarrow> 'u memdb
     \<Rightarrow> error option \<times> 'u memdb" where
  "mem_Exec effect ctx q args d =
     (if ctx = Canceled then (Some ctx_error, d)
      else if q = sql_create then
        (None, d\<lparr>flits := Some (case flits d of None \<Rightarrow> [] | Some t \<Rightarrow> t)\<rparr>)
      else if q = sql_insert then
        (case flits d of
           None \<Rightarrow> (Some (Opaque ''no such table: flits''), d)
         | Some t \<Rightarrow>
             (case args of
                [v] \<Rightarrow> (if v \<in> set t then (Some (Opaque ''duplicate entry''), d)
                        else (None, d\<lparr>flits := Some (t @ [v])\<rparr>))
              | _ \<Rightarrow> (Some (Opaque ''wrong number of arguments''), d)))
      else
        (case effect q (user d) of
           Inl err \<Rightarrow> (Some err, d)
         | Inr u \<Rightarrow> (None, d\<lparr>user := u\<rparr>)))"

definition mem_Query ::
  "Context \<Rightarrow> string \<Rightarrow> 'u memdb \<Rightarrow> (error + rows) \<times> 'u memdb" where
  "mem_Query ctx q d =
     (if ctx = Canceled then (Inl ctx_error, d)
      else if q = sql_select then
        (case flits d of
           None \<Rightarrow> (Inl (Opaque ''no such table: flits''), d)
         | Some t \<Rightarrow> (Inr \<lparr>scans = map Inr t, rows_Err = None\<rparr>, d))
      else (Inl (Opaque ''unsupported query''), d))"

definition mem_driver :: "(string \<Rightarrow> 'u \<Rightarrow> error + 'u) \<Rightarrow> 'u memdb driver" where
  "mem_driver effect =
     \<lparr>Conn = (\<lambda>ctx d. if ctx = Canceled then (Some ctx_error, d) else (None, d)),
      ExecContext = mem_Exec effect,
      QueryContext = mem_Query,
      Close = (\<lambda>d. d)\<rparr>"

text \<open>A file system given by its listing and the contents of its files.\<close>

definition mem_fs :: "string list \<Rightarrow> (string \<times> string) list \<Rightarrow> FS" where
  "mem_fs listing files =
     \<lparr>Glob = (\<lambda>pat. Inr listing),
      ReadFile = (\<lambda>name. case map_of files name of
                            None \<Rightarrow> Inl (Opaque (''open '' @ name @ '': file does not exist''))
                          | Some data \<Rightarrow> Inr data)\<rparr>"

section \<open>The command line tool\<close>

text \<open>
  \<^verbatim>\<open>time.Time\<close> through the fields the layout \<^verbatim>\<open>20060102150405\<close> prints, and
  \<^verbatim>\<open>Format\<close> for that layout: the year zero-padded to four digits, every other field
  to two.
\<close>

record Time =
  Year :: int
  Month :: nat
  Day :: nat
  Hour :: nat
  Minute :: nat
  Second :: nat

definition digit :: "nat \<Rightarrow> char" where
  "digit n = char_of (48 + n)"

fun decimal :: "nat \<Rightarrow> string" where
  "decimal n = (if n < 10 then [digit n] else decimal (n div 10) @ [digit (n mod 10)])"

declare decimal.simps [simp del]

definition appendInt :: "int \<Rightarrow> nat \<Rightarrow> string" where
  "appendInt x width =
     (let u = nat \<bar>x\<bar>; ds = decimal u
      in (if x < 0 then ''-'' else []) @ replicate (width - length ds) (CHR ''0'') @ ds)"

definition Format_20060102150405 :: "Time \<Rightarrow> string" where
  "Format_20060102150405 t =
     appendInt (Year t) 4 @ appendInt (int (Month t)) 2 @ appendInt (int (Day t)) 2 @
     appendInt (int (Hour t)) 2 @ appendInt (int (Minute t)) 2 @ appendInt (int (Second t)) 2"

text \<open>
  The operating system as \<^verbatim>\<open>run\<close> uses it, over a file system state \<open>'f\<close>:
  \<^verbatim>\<open>os.Stat\<close> (an error, or whether the path is a directory), \<^verbatim>\<open>os.WriteFile\<close>,
  \<^verbatim>\<open>time.Now\<close>, \<^verbatim>\<open>filepath.Join\<close>, and the error of a write to standard output.
\<close>

record 'f os =
  Stat :: "string \<Rightarrow> 'f \<Rightarrow> error + bool"
  WriteFile :: "string \<Rightarrow> string \<Rightarrow> 'f \<Rightarrow> error option \<times> 'f"
  Now :: Time
  Join :: "string \<Rightarrow> string \<Rightarrow> string"
  stdout_err :: "error option"

record 'f process =
  files :: 'f
  stdout :: string
  stderr :: string

text \<open>\<^verbatim>\<open>run\<close> ends the process by \<^verbatim>\<open>os.Exit\<close> or returns an error that may be nil.\<close>

datatype run_result = Exit nat | Returned "error option"

definition newline :: string where
  "newline = [CHR 0x0A]"

definition run :: "'f os \<Rightarrow> string list \<Rightarrow> 'f process \<Rightarrow> run_result \<times> 'f process" where
  "run env Args p =
     (if length Args \<noteq> 3 then
        (Exit 2, p\<lparr>stderr := stderr p @ ''usage: flit new MIGRATION-DIR'' @ newline\<rparr>)
      else if Args ! 1 \<noteq> ''new'' then
        (Exit 2, p\<lparr>stderr := stderr p @ ''usage: flit new MIGRATION-DIR'' @ newline\<rparr>)
      else
        (let dir = Args ! 2
         in case Stat env dir (files p) of
              Inl err \<Rightarrow> (Returned (Some err), p)
            | Inr isDir \<Rightarrow>
                if \<not> isDir then
                  (Returned (Some (Opaque (''stat '' @ dir @ '': not a directory''))), p)
                else
                  (let name = Format_20060102150405 (Now env) @ ''-new-migration.sql'';
                       path = Join env dir name
                   in case WriteFile env path [] (files p) of
                        (Some err, f1) \<Rightarrow> (Returned (Some err), p\<lparr>files := f1\<rparr>)
                      | (None, f1) \<Rightarrow>
                          (case stdout_err env of
                             Some err \<Rightarrow> (Returned (Some err), p\<lparr>files := f1\<rparr>)
                           | None \<Rightarrow>
                               (Returned None,
                                p\<lparr>files := f1, stdout := stdout p @ path @ newline\<rparr>)))))"

text \<open>\<^verbatim>\<open>main\<close>: the exit status and the final state of the process.\<close>

definition main :: "'f os \<Rightarrow> string list \<Rightarrow> 'f process \<Rightarrow> nat \<times> 'f process" where
  "main env Args p =
     (case run env Args p of
        (Exit code, p1) \<Rightarrow> (code, p1)
      | (Returned (Some err), p1) \<Rightarrow>
          (1, p1\<lparr>stderr := stderr p1 @ ''flit: '' @ Error err @ newline\<rparr>)
      | (Returned None, p1) \<Rightarrow> (0, p1))"

section \<open>An instrumented connection\<close>

text \<open>
  The calls made on the database, each with the context it was handed. \<open>logging conn\<close>
  behaves as \<open>conn\<close> and appends every call to a log kept beside the database state.
\<close>

datatype call =
  ConnCall Context
| ExecCall Context string "string list"
| QueryCall Context string
| CloseCall

fun call_ctx :: "call \<Rightarrow> Context option" where
  "call_ctx (ConnCall c) = Some c"
| "call_ctx (ExecCall c q args) = Some c"
| "call_ctx (QueryCall c q) = Some c"
| "call_ctx CloseCall = None"

definition logging :: "'d driver \<Rightarrow> ('d \<times> call list) driver" where
  "logging conn =
     \<lparr>Conn = (\<lambda>ctx (d, l). case Conn conn ctx d of (e, d') \<Rightarrow> (e, (d', l @ [ConnCall ctx]))),
      ExecContext = (\<lambda>ctx q args (d, l).
         case ExecContext conn ctx q args d of (e, d') \<Rightarrow> (e, (d', l @ [ExecCall ctx q args]))),
      QueryContext = (\<lambda>ctx q (d, l).
         case QueryContext conn ctx q d of (r, d') \<Rightarrow> (r, (d', l @ [QueryCall ctx q]))),
      Close = (\<lambda>(d, l). (Close conn d, l @ [CloseCall]))\<rparr>"

text \<open>The two calls that apply and record one unit.\<close>

definition unit_calls :: "Context \<Rightarrow> migration \<Rightarrow> call list" where
  "unit_calls ctx u = [ExecCall ctx (SQL u) [], ExecCall ctx sql_insert [Sum u]]"

text \<open>
  \<open>made_with ctx l l'\<close>: the log \<open>l'\<close> extends \<open>l\<close> by calls that were all handed the
  context \<open>ctx\<close> (closing the connection takes none).
\<close>

definition made_with :: "Context \<Rightarrow> call list \<Rightarrow> call list \<Rightarrow> bool" where
  "made_with ctx l l' \<longleftrightarrow>
     (\<exists>calls. l' = l @ calls \<and> (\<forall>c \<in> set calls. call_ctx c = Some ctx \<or> c = CloseCall))"

section \<open>Auxiliary notions\<close>

text \<open>The keys and names of a map of migrations, without the bodies.\<close>

definition names_of :: "stmts \<Rightarrow> (string \<times> string) list" where
  "names_of kvs = map (\<lambda>(k, m). (k, Name m)) kvs"

text \<open>
  The invariant of the map that \<^verbatim>\<open>loadMigrations\<close> builds: keys are distinct, and every
  entry is stored under its own sum, which is the hexadecimal digest of its name.
\<close>

definition keyed :: "(8 word list \<Rightarrow> 8 word list) \<Rightarrow> stmts \<Rightarrow> bool" where
  "keyed sha kvs \<longleftrightarrow>
     distinct (map fst kvs) \<and> (\<forall>(k, m) \<in> set kvs. k = Sum m \<and> Sum m = hexsum_of sha (Name m))"

section \<open>A running example\<close>

text \<open>
  The two files of the test directory \<^verbatim>\<open>testdata/lexical-order\<close>, listed in the order
  \<^verbatim>\<open>002-first.sql\<close>, \<^verbatim>\<open>01-second.sql\<close>; a database whose other statements are
  logged when they run and fail when they are the text \<^verbatim>\<open>BAD\<close>; a stand-in for the
  digest that returns its input; and a \<^verbatim>\<open>range\<close> that visits the map backwards.
\<close>

definition ex_rt :: runtime where
  "ex_rt = \<lparr>Sum256 = (\<lambda>bs. bs), range_order = rev\<rparr>"

definition ex_effect :: "string \<Rightarrow> string list \<Rightarrow> error + string list" where
  "ex_effect q log = (if q = ''BAD'' then Inl (Opaque ''syntax error'') else Inr (log @ [q]))"

definition ex_fs :: FS where
  "ex_fs = mem_fs [''002-first.sql'', ''01-second.sql'']
                  [(''002-first.sql'', ''CREATE TABLE t(id INT)''),
                   (''01-second.sql'', ''INSERT INTO t VALUES (1)'')]"

text \<open>The same two files after their bodies were edited.\<close>

definition ex_fs_edited :: FS where
  "ex_fs_edited = mem_fs [''002-first.sql'', ''01-second.sql'']
                         [(''002-first.sql'', ''CREATE TABLE t(id BIGINT)''),
                          (''01-second.sql'', ''INSERT INTO t VALUES (2)'')]"

definition ex_state :: "string list memdb state" where
  "ex_state = \<lparr>dbs = \<lparr>flits = None, user = []\<rparr>, applied = [], mu = False\<rparr>"

definition ex_migrator :: "string list memdb Migrator" where
  "ex_migrator = New (mem_driver ex_effect) ex_fs []"

text \<open>A connection on which every query fails.\<close>

definition ex_driver_query_fails :: "string list memdb driver" where
  "ex_driver_query_fails =
     (mem_driver ex_effect)\<lparr>QueryContext := (\<lambda>ctx q d. (Inl (Opaque ''invalid connection''), d))\<rparr>"

text \<open>A listing that names a file which cannot be read.\<close>

definition ex_fs_unreadable :: FS where
  "ex_fs_unreadable = mem_fs [''001-first.sql''] []"

text \<open>Five files, the third of which holds a statement that fails.\<close>

definition ex_fs_five :: FS where
  "ex_fs_five = mem_fs [''001.sql'', ''002.sql'', ''003.sql'', ''004.sql'', ''005.sql'']
                       [(''001.sql'', ''CREATE TABLE t(id INT)''),
                        (''002.sql'', ''INSERT INTO t VALUES (1)''),
                        (''003.sql'', ''BAD''),
                        (''004.sql'', ''INSERT INTO t VALUES (2)''),
                        (''005.sql'', ''INSERT INTO t VALUES (3)'')]"

text \<open>The migration that \<^verbatim>\<open>loadMigrations\<close> builds for a name and a body in the example.\<close>

definition ex_mig :: "string \<Rightarrow> string \<Rightarrow> migration" where
  "ex_mig name body = \<lparr>Sum = hexsum_of (Sum256 ex_rt) name, Name = name, SQL = body\<rparr>"

definition ex_entry :: "string \<Rightarrow> string \<Rightarrow> string \<times> migration" where
  "ex_entry name body = (hexsum_of (Sum256 ex_rt) name, ex_mig name body)"

text \<open>
  Times whose fields are in range and whose year has at most four digits, and the number a
  string of decimal digits stands for.
\<close>

definition valid_time :: "Time \<Rightarrow> bool" where
  "valid_time t \<longleftrightarrow>
     0 \<le> Year t \<and> Year t \<le> 9999 \<and> 1 \<le> Month t \<and> Month t \<le> 12 \<and>
     1 \<le> Day t \<and> Day t \<le> 31 \<and> Hour t < 24 \<and> Minute t < 60 \<and> Second t < 60"

definition is_digit :: "char \<Rightarrow> bool" where
  "is_digit c \<longleftrightarrow> 48 \<le> (of_char c :: nat) \<and> (of_char c :: nat) \<le> 57"

definition undecimal :: "string \<Rightarrow> nat" where
  "undecimal ds = foldl (\<lambda>a c. 10 * a + (of_char c - 48)) 0 ds"

text \<open>
  An operating system for the examples: the file system state is the list of the files
  written, \<^verbatim>\<open>/srv/migrations\<close> is a directory, \<^verbatim>\<open>/etc/hosts\<close> is a file, nothing else
  exists, and it is the 9th of March 2026, 00:59:07.
\<close>

definition ex_os :: "(string \<times> string) list os" where
  "ex_os =
     \<lparr>Stat = (\<lambda>path f. if path = ''/srv/migrations'' then Inr True
                        else if path = ''/etc/hosts'' then Inr False
                        else Inl (Opaque (''stat '' @ path @ '': no such file or directory''))),
      WriteFile = (\<lambda>path data f. (None, f @ [(path, data)])),
      Now = \<lparr>Year = 2026, Month = 3, Day = 9, Hour = 0, Minute = 59, Second = 7\<rparr>,
      Join = (\<lambda>dir name. dir @ ''/'' @ name),
      stdout_err = None\<rparr>"

definition ex_process :: "(string \<times> string) list process" where
  "ex_process = \<lparr>files = [], stdout = [], stderr = []\<rparr>"

text \<open>The example on the instrumented connection, with an empty log.\<close>

definition ex_logged_migrator :: "(string list memdb \<times> call list) Migrator" where
  "ex_logged_migrator = New (logging (mem_driver ex_effect)) ex_fs []"

definition ex_logged_state :: "(string list memdb \<times> call list) state" where
  "ex_logged_state = \<lparr>dbs = (\<lparr>flits = None, user = []\<rparr>, []), applied = [], mu = False\<rparr>"

text \<open>A connection that does what the reference database does and never looks at the context.\<close>

definition ex_driver_ignores_ctx :: "string list memdb driver" where
  "ex_driver_ignores_ctx =
     \<lparr>Conn = (\<lambda>ctx. Conn (mem_driver ex_effect) Background),
      ExecContext = (\<lambda>ctx. ExecContext (mem_driver ex_effect) Background),
      QueryContext = (\<lambda>ctx. QueryContext (mem_driver ex_effect) Background),
      Close = Close (mem_driver ex_effect)\<rparr>"

section \<open>Properties of the fingerprint\<close>

lemma hextable_length: "length hextable = 16" by (simp add: hextable_def)
lemma hextable_distinct: "distinct hextable" by (simp add: hextable_def)

lemma hi_nibble_lt: "unat (drop_bit 4 (v :: 8 word)) < 16"
proof -
  have "unat (drop_bit 4 v) = unat v div 2 ^ 4" by (simp add: drop_bit_eq_div unat_div)
  moreover have "unat v < 256" using unsigned_less [of v] by simp
  ultimately show ?thesis by simp
qed

lemma lo_nibble_eq: "(v :: 8 word) AND 0x0f = take_bit 4 v"
proof -
  have "(0x0f :: 8 word) = mask 4" by (simp add: mask_eq_exp_minus_1)
  then show ?thesis by (simp add: take_bit_eq_mask)
qed

lemma lo_nibble_lt: "unat ((v :: 8 word) AND 0x0f) < 16"
proof -
  have "unat (take_bit 4 v) < 2 ^ 4" by (simp add: take_bit_eq_mod unat_mod)
  then show ?thesis by (simp add: lo_nibble_eq)
qed

lemma hex_byte_length: "length (hex_byte v) = 2" by (simp add: hex_byte_def)

lemma hex_byte_chars: "set (hex_byte v) \<subseteq> set hextable"
  using hi_nibble_lt [of v] lo_nibble_lt [of v]
  by (simp add: hex_byte_def hextable_length)

lemma hex_byte_inj: "hex_byte v = hex_byte w \<Longrightarrow> v = w"
proof -
  assume h: "hex_byte v = hex_byte w"
  have a: "hextable ! unat (drop_bit 4 v) = hextable ! unat (drop_bit 4 w)"
    and b: "hextable ! unat (v AND 0x0f) = hextable ! unat (w AND 0x0f)"
    using h by (simp_all add: hex_byte_def)
  have "unat (drop_bit 4 v) = unat (drop_bit 4 w)"
    using a hi_nibble_lt [of v] hi_nibble_lt [of w] hextable_distinct
    by (simp add: nth_eq_iff_index_eq hextable_length)
  then have hi: "drop_bit 4 v = drop_bit 4 w" by (simp add: word_unat_eq_iff)
  have "unat (v AND 0x0f) = unat (w AND 0x0f)"
    using b lo_nibble_lt [of v] lo_nibble_lt [of w] hextable_distinct
    by (simp add: nth_eq_iff_index_eq hextable_length)
  then have "v AND 0x0f = w AND 0x0f" by (simp add: word_unat_eq_iff)
  then have lo: "take_bit 4 v = take_bit 4 w" by (simp add: lo_nibble_eq)
  have "v = push_bit 4 (drop_bit 4 v) + take_bit 4 v" by (simp add: bits_ident)
  also have "\<dots> = push_bit 4 (drop_bit 4 w) + take_bit 4 w" by (simp add: hi lo)
  also have "\<dots> = w" by (simp add: bits_ident)
  finally show ?thesis .
qed

lemma hex_EncodeToString_length: "length (hex_EncodeToString src) = 2 * length src"
  by (induction src) (simp_all add: hex_EncodeToString_def hex_byte_length)

lemma hex_EncodeToString_chars: "set (hex_EncodeToString src) \<subseteq> set hextable"
  using hex_byte_chars by (auto simp: hex_EncodeToString_def)

lemma hex_EncodeToString_inj: "hex_EncodeToString xs = hex_EncodeToString ys \<Longrightarrow> xs = ys"
proof (induction xs arbitrary: ys)
  case Nil
  then show ?case
    by (cases ys) (simp_all add: hex_EncodeToString_def hex_byte_def)
next
  case (Cons x xs)
  show ?case
  proof (cases ys)
    case Nil
    with Cons.prems show ?thesis by (simp add: hex_EncodeToString_def hex_byte_def)
  next
    case (Cons y ys')
    from Cons.prems Cons have "hex_byte x @ hex_EncodeToString xs = hex_byte y @ hex_EncodeToString ys'"
      by (simp add: hex_EncodeToString_def)
    then have "hex_byte x = hex_byte y" and "hex_EncodeToString xs = hex_EncodeToString ys'"
      by (simp_all add: hex_byte_length)
    then show ?thesis using Cons.IH Cons hex_byte_inj by blast
  qed
qed

lemma hexsum_of_eq_iff:
  "hexsum_of sha n1 = hexsum_of sha n2 \<longleftrightarrow> sha (bytes n1) = sha (bytes n2)"
  using hex_EncodeToString_inj by (auto simp: hexsum_of_def)

section \<open>Properties of discovery\<close>

lemma set_store: "set (store k v kvs) \<subseteq> insert (k, v) (set kvs)"
  by (induction k v kvs rule: store.induct) (auto split: if_splits)

lemma fst_set_store: "fst ` set (store k v kvs) = insert k (fst ` set kvs)"
  by (induction k v kvs rule: store.induct) (auto split: if_splits)

lemma distinct_store: "distinct (map fst kvs) \<Longrightarrow> distinct (map fst (store k v kvs))"
proof (induction kvs)
  case Nil
  then show ?case by simp
next
  case (Cons kv kvs)
  obtain k' v' where kv: "kv = (k', v')" by (cases kv)
  show ?case
  proof (cases "k = k'")
    case True
    with Cons.prems kv show ?thesis by simp
  next
    case False
    have "k' \<notin> fst ` set (store k v kvs)"
      using Cons.prems kv False by (simp add: fst_set_store)
    with Cons kv False show ?thesis by simp
  qed
qed

lemma keyed_Nil: "keyed sha []"
  by (simp add: keyed_def)

lemma keyed_store:
  assumes "keyed sha kvs"
  shows "keyed sha (store (hexsum_of sha name) \<lparr>Sum = hexsum_of sha name, Name = name, SQL = data\<rparr> kvs)"
proof -
  let ?k = "hexsum_of sha name"
  let ?v = "\<lparr>Sum = ?k, Name = name, SQL = data\<rparr>"
  have "distinct (map fst (store ?k ?v kvs))"
    using assms by (simp add: keyed_def distinct_store)
  moreover have "\<forall>(k, m) \<in> set (store ?k ?v kvs). k = Sum m \<and> Sum m = hexsum_of sha (Name m)"
  proof (clarify)
    fix k m assume "(k, m) \<in> set (store ?k ?v kvs)"
    then have "(k, m) = (?k, ?v) \<or> (k, m) \<in> set kvs"
      using set_store [of ?k ?v kvs] by blast
    then show "k = Sum m \<and> Sum m = hexsum_of sha (Name m)"
    proof
      assume "(k, m) = (?k, ?v)"
      then show ?thesis by simp
    next
      assume "(k, m) \<in> set kvs"
      with assms show ?thesis unfolding keyed_def by blast
    qed
  qed
  ultimately show ?thesis by (simp add: keyed_def)
qed

lemma keyed_load_loop:
  "keyed sha acc \<Longrightarrow> load_loop sha fsys names acc = Inr migs \<Longrightarrow> keyed sha migs"
proof (induction names arbitrary: acc)
  case Nil
  then show ?case by simp
next
  case (Cons name names)
  from Cons.prems(2) obtain data where rd: "ReadFile fsys name = Inr data"
    by (cases "ReadFile fsys name") simp_all
  with Cons.prems(2) have
    "load_loop sha fsys names
       (store (hexsum_of sha name) \<lparr>Sum = hexsum_of sha name, Name = name, SQL = data\<rparr> acc) = Inr migs"
    by (simp add: Let_def)
  with Cons.IH keyed_store [OF Cons.prems(1)] show ?case by blast
qed

lemma keyed_loadMigrations: "loadMigrations sha fsys pat = Inr migs \<Longrightarrow> keyed sha migs"
  by (auto simp: loadMigrations_def split: sum.splits dest: keyed_load_loop [OF keyed_Nil])

lemma keyedD: "keyed sha kvs \<Longrightarrow> (k, m) \<in> set kvs \<Longrightarrow> k = hexsum_of sha (Name m)"
  by (auto simp: keyed_def)

lemma keyed_inj_Name: "keyed sha kvs \<Longrightarrow> inj_on Name (snd ` set kvs)"
proof (rule inj_onI)
  fix m1 m2
  assume k: "keyed sha kvs" and m1: "m1 \<in> snd ` set kvs" and m2: "m2 \<in> snd ` set kvs"
    and eq: "Name m1 = Name m2"
  from m1 obtain k1 where e1: "(k1, m1) \<in> set kvs" by auto
  from m2 obtain k2 where e2: "(k2, m2) \<in> set kvs" by auto
  have "k1 = k2" using keyedD [OF k e1] keyedD [OF k e2] eq by simp
  with e2 have e2': "(k1, m2) \<in> set kvs" by simp
  from k have "distinct (map fst kvs)" by (simp add: keyed_def)
  then show "m1 = m2" using e1 e2' by (rule eq_key_imp_eq_value)
qed

lemma names_of_store:
  "names_of a = names_of b \<Longrightarrow> Name v = Name w \<Longrightarrow> names_of (store k v a) = names_of (store k w b)"
proof (induction a arbitrary: b)
  case Nil
  then show ?case by (simp add: names_of_def)
next
  case (Cons x a)
  then obtain y b' where b: "b = y # b'" by (cases b) (auto simp: names_of_def)
  obtain kx vx where x: "x = (kx, vx)" by (cases x)
  obtain ky vy where y: "y = (ky, vy)" by (cases y)
  from Cons.prems(1) b x y have hd: "kx = ky" "Name vx = Name vy" and tl: "names_of a = names_of b'"
    by (simp_all add: names_of_def)
  have "names_of (store k v a) = names_of (store k w b')"
    using Cons.IH [OF tl Cons.prems(2)] .
  then show ?case using b x y hd tl Cons.prems(2) by (simp add: names_of_def)
qed

lemma names_of_load_loop:
  "names_of a = names_of b \<Longrightarrow> load_loop sha fs1 names a = Inr r1 \<Longrightarrow>
   load_loop sha fs2 names b = Inr r2 \<Longrightarrow> names_of r1 = names_of r2"
proof (induction names arbitrary: a b)
  case Nil
  then show ?case by simp
next
  case (Cons name names)
  from Cons.prems(2) obtain d1 where rd1: "ReadFile fs1 name = Inr d1"
    by (cases "ReadFile fs1 name") simp_all
  from Cons.prems(3) obtain d2 where rd2: "ReadFile fs2 name = Inr d2"
    by (cases "ReadFile fs2 name") simp_all
  let ?k = "hexsum_of sha name"
  have "names_of (store ?k \<lparr>Sum = ?k, Name = name, SQL = d1\<rparr> a)
      = names_of (store ?k \<lparr>Sum = ?k, Name = name, SQL = d2\<rparr> b)"
    using Cons.prems(1) by (rule names_of_store) simp
  moreover have "load_loop sha fs1 names (store ?k \<lparr>Sum = ?k, Name = name, SQL = d1\<rparr> a) = Inr r1"
    using Cons.prems(2) rd1 by (simp add: Let_def)
  moreover have "load_loop sha fs2 names (store ?k \<lparr>Sum = ?k, Name = name, SQL = d2\<rparr> b) = Inr r2"
    using Cons.prems(3) rd2 by (simp add: Let_def)
  ultimately show ?case using Cons.IH by blast
qed

section \<open>Properties of the order of application\<close>

lemma strings_Compare_le: "strings_Compare a b \<le> 0 \<longleftrightarrow> a \<le> b"
  by (induction a b rule: strings_Compare.induct) (auto simp: less_char_def)

lemma strings_Compare_less: "strings_Compare a b < 0 \<longleftrightarrow> a < b"
  by (induction a b rule: strings_Compare.induct) (auto simp: less_char_def)

lemma strings_Compare_eq: "strings_Compare a b = 0 \<longleftrightarrow> a = b"
  by (induction a b rule: strings_Compare.induct) (auto simp: less_char_def)

lemma insert_cmp_insort:
  "insert_cmp (\<lambda>a b. strings_Compare (Name a) (Name b)) x xs = insort_key Name x xs"
  by (induction xs) (simp_all add: strings_Compare_le)

lemma sort_pending_sort_key: "sort_pending xs = sort_key Name xs"
  by (induction xs) (simp_all add: sort_pending_def slices_SortFunc_def insert_cmp_insort)

lemma sorted_sort_pending: "sorted (map Name (sort_pending xs))"
  by (simp add: sort_pending_sort_key)

lemma mset_sort_pending: "mset (sort_pending xs) = mset xs"
  by (simp add: sort_pending_sort_key)

lemma set_sort_pending: "set (sort_pending xs) = set xs"
  by (simp add: sort_pending_sort_key)

lemma sort_pending_unique:
  assumes perm: "mset ys = mset xs"
    and srt: "sorted_wrt (\<lambda>a b. strings_Compare (Name a) (Name b) \<le> 0) ys"
    and dist: "distinct (map Name xs)"
  shows "ys = sort_pending xs"
proof -
  have s1: "sorted (map Name ys)"
    using srt by (simp add: sorted_map strings_Compare_le)
  have "mset (map Name ys) = mset (map Name xs)"
    using perm by simp
  then have d1: "distinct (map Name ys)"
    using dist mset_eq_imp_distinct_iff by blast
  have "mset (map Name (sort_pending xs)) = mset (map Name xs)"
    by (simp add: mset_sort_pending)
  then have d2: "distinct (map Name (sort_pending xs))"
    using dist mset_eq_imp_distinct_iff by blast
  have st: "set ys = set (sort_pending xs)"
    using mset_eq_setD [OF perm] by (simp add: set_sort_pending)
  have "inj_on Name (set xs)" using dist by (simp add: distinct_map)
  then have inj: "inj_on Name (set ys \<union> set (sort_pending xs))"
    using st by (simp add: set_sort_pending)
  from inj s1 d1 sorted_sort_pending d2 st show ?thesis
    by (rule map_sorted_distinct_set_unique)
qed

lemma sort_pending_cong:
  assumes "mset xs = mset ys" and "distinct (map Name xs)"
  shows "sort_pending xs = sort_pending ys"
proof -
  have "mset (sort_pending ys) = mset xs" using assms(1) by (simp add: mset_sort_pending)
  moreover have "sorted_wrt (\<lambda>a b. strings_Compare (Name a) (Name b) \<le> 0) (sort_pending ys)"
    using sorted_sort_pending [of ys] by (simp add: sorted_map strings_Compare_le)
  ultimately have "sort_pending ys = sort_pending xs"
    using assms(2) by (rule sort_pending_unique)
  then show ?thesis by simp
qed

lemma keyed_distinct_names:
  assumes "keyed sha kvs"
  shows "distinct (map (\<lambda>kv. Name (snd kv)) kvs)"
proof -
  have dk: "distinct (map fst kvs)" using assms by (simp add: keyed_def)
  then have "distinct kvs" by (simp add: distinct_map)
  moreover have "inj_on (\<lambda>kv. Name (snd kv)) (set kvs)"
  proof (rule inj_onI)
    fix x y
    assume x: "x \<in> set kvs" and y: "y \<in> set kvs" and eq: "Name (snd x) = Name (snd y)"
    have ex: "(fst x, snd x) \<in> set kvs" using x by simp
    have ey: "(fst y, snd y) \<in> set kvs" using y by simp
    have "fst x = fst y"
      using keyedD [OF assms ex] keyedD [OF assms ey] eq by simp
    with ey have ey': "(fst x, snd y) \<in> set kvs" by simp
    have "snd x = snd y" using dk ex ey' by (rule eq_key_imp_eq_value)
    with \<open>fst x = fst y\<close> show "x = y" by (simp add: prod_eq_iff)
  qed
  ultimately show ?thesis by (simp add: distinct_map)
qed

lemma pending_of_names:
  "map Name (pending_of rt migs c)
     = map (\<lambda>kv. Name (snd kv)) (filter (\<lambda>(sm, m). sm \<notin> set c) (range_order rt migs))"
  by (simp add: pending_of_def comp_def)

lemma pending_of_names_distinct:
  assumes k: "keyed sha migs" and perm: "mset (range_order rt migs) = mset migs"
  shows "distinct (map Name (pending_of rt migs c))"
proof -
  have "mset (map (\<lambda>kv. Name (snd kv)) (range_order rt migs)) = mset (map (\<lambda>kv. Name (snd kv)) migs)"
    using perm by simp
  then have "distinct (map (\<lambda>kv. Name (snd kv)) (range_order rt migs))"
    using keyed_distinct_names [OF k] mset_eq_imp_distinct_iff by blast
  then show ?thesis
    unfolding pending_of_names by (rule distinct_map_filter)
qed

lemma pending_of_mset:
  assumes "mset (range_order rt migs) = mset migs"
  shows "mset (pending_of rt migs c)
           = image_mset snd (filter_mset (\<lambda>(sm, m). sm \<notin> set c) (mset migs))"
  using assms by (simp add: pending_of_def)

lemma sorted_pending_independent:
  assumes k: "keyed sha migs"
    and p1: "mset (range_order rt1 migs) = mset migs"
    and p2: "mset (range_order rt2 migs) = mset migs"
  shows "sort_pending (pending_of rt1 migs c) = sort_pending (pending_of rt2 migs c)"
proof -
  have "mset (pending_of rt1 migs c) = mset (pending_of rt2 migs c)"
    by (simp only: pending_of_mset [OF p1] pending_of_mset [OF p2])
  then show ?thesis
    using pending_of_names_distinct [OF k p1] by (rule sort_pending_cong)
qed

lemma set_pending_of:
  assumes k: "keyed sha migs" and perm: "mset (range_order rt migs) = mset migs"
  shows "set (pending_of rt migs c) = {m \<in> snd ` set migs. Sum m \<notin> set c}"
proof -
  have st: "set (range_order rt migs) = set migs" using perm by (rule mset_eq_setD)
  have key: "\<And>sm m. (sm, m) \<in> set migs \<Longrightarrow> sm = Sum m"
    using k unfolding keyed_def by auto
  show ?thesis
  proof (rule set_eqI)
    fix m
    show "m \<in> set (pending_of rt migs c) \<longleftrightarrow> m \<in> {m \<in> snd ` set migs. Sum m \<notin> set c}"
    proof
      assume "m \<in> set (pending_of rt migs c)"
      then obtain sm where e: "(sm, m) \<in> set migs" and n: "sm \<notin> set c"
        using st by (auto simp: pending_of_def)
      have "m \<in> snd ` set migs"
        using e by (intro image_eqI [where x = "(sm, m)"]) simp_all
      with key [OF e] n show "m \<in> {m \<in> snd ` set migs. Sum m \<notin> set c}"
        by simp
    next
      assume "m \<in> {m \<in> snd ` set migs. Sum m \<notin> set c}"
      then obtain sm where e: "(sm, m) \<in> set migs" and n: "Sum m \<notin> set c" by auto
      from key [OF e] n have "sm \<notin> set c" by simp
      with e st show "m \<in> set (pending_of rt migs c)"
        by (auto simp: pending_of_def image_iff intro!: bexI [of _ "(sm, m)"])
    qed
  qed
qed

section \<open>Properties of the apply loop and the critical section\<close>

lemma apply_loop_ok:
  "apply_loop conn ctx ms s = (None, s') \<Longrightarrow>
     applied s' = applied s @ map Name ms \<and> mu s' = mu s"
proof (induction ms arbitrary: s)
  case Nil
  then show ?case by simp
next
  case (Cons m ms)
  from Cons.prems obtain d1 d2 where
    e1: "ExecContext conn ctx (SQL m) [] (dbs s) = (None, d1)" and
    e2: "ExecContext conn ctx sql_insert [Sum m] d1 = (None, d2)" and
    rest: "apply_loop conn ctx ms (s\<lparr>dbs := d2, applied := applied s @ [Name m]\<rparr>) = (None, s')"
    by (auto split: prod.splits option.splits)
  from Cons.IH [OF rest] show ?case by simp
qed

lemma apply_loop_take:
  "apply_loop conn ctx ms s = (err, s') \<Longrightarrow>
     \<exists>k. applied s' = applied s @ map Name (take k ms)"
proof (induction ms arbitrary: s)
  case Nil
  then show ?case by simp
next
  case (Cons m ms)
  obtain r1 d1 where e1: "ExecContext conn ctx (SQL m) [] (dbs s) = (r1, d1)"
    by (cases "ExecContext conn ctx (SQL m) [] (dbs s)")
  show ?case
  proof (cases r1)
    case (Some e)
    with Cons.prems e1 have "applied s' = applied s" by auto
    then have "applied s' = applied s @ map Name (take 0 (m # ms))" by simp
    then show ?thesis by blast
  next
    case None
    obtain r2 d2 where e2: "ExecContext conn ctx sql_insert [Sum m] d1 = (r2, d2)"
      by (cases "ExecContext conn ctx sql_insert [Sum m] d1")
    show ?thesis
    proof (cases r2)
      case (Some e)
      with Cons.prems e1 e2 None have "applied s' = applied s" by auto
      then have "applied s' = applied s @ map Name (take 0 (m # ms))" by simp
      then show ?thesis by blast
    next
      case None2: None
      from Cons.prems e1 e2 None None2
      have "apply_loop conn ctx ms (s\<lparr>dbs := d2, applied := applied s @ [Name m]\<rparr>) = (err, s')"
        by simp
      from Cons.IH [OF this] obtain k where
        "applied s' = (applied s @ [Name m]) @ map Name (take k ms)" by auto
      then have "applied s' = applied s @ map Name (take (Suc k) (m # ms))" by simp
      then show ?thesis by blast
    qed
  qed
qed

lemma apply_loop_mu: "apply_loop conn ctx ms s = (err, s') \<Longrightarrow> mu s' = mu s"
proof (induction ms arbitrary: s)
  case Nil
  then show ?case by auto
next
  case (Cons m ms)
  obtain r1 d1 where e1: "ExecContext conn ctx (SQL m) [] (dbs s) = (r1, d1)"
    by (cases "ExecContext conn ctx (SQL m) [] (dbs s)")
  obtain r2 d2 where e2: "ExecContext conn ctx sql_insert [Sum m] d1 = (r2, d2)"
    by (cases "ExecContext conn ctx sql_insert [Sum m] d1")
  show ?case
  proof (cases "r1 = None \<and> r2 = None")
    case True
    with Cons.prems e1 e2
    have "apply_loop conn ctx ms (s\<lparr>dbs := d2, applied := applied s @ [Name m]\<rparr>) = (err, s')"
      by simp
    from Cons.IH [OF this] show ?thesis by simp
  next
    case False
    with Cons.prems e1 e2 show ?thesis by (cases r1; cases r2) auto
  qed
qed

lemma apply_loop_append:
  "apply_loop conn ctx (pre @ post) s =
     (case apply_loop conn ctx pre s of
        (None, s1) \<Rightarrow> apply_loop conn ctx post s1
      | (Some e, s1) \<Rightarrow> (Some e, s1))"
proof (induction pre arbitrary: s)
  case Nil
  then show ?case by simp
next
  case (Cons m pre)
  show ?case
    by (simp add: Cons.IH split: prod.splits option.splits)
qed

lemma critical_section_applied:
  assumes "critical_section rt migs conn ctx s = (r, s')"
  shows "\<exists>c k. applied s' = applied s @ map Name (take k (sort_pending (pending_of rt migs c)))"
proof -
  have triv: "applied s' = applied s \<Longrightarrow> ?thesis"
  proof -
    assume "applied s' = applied s"
    then have "applied s' = applied s @ map Name (take 0 (sort_pending (pending_of rt migs [])))"
      by simp
    then show ?thesis by blast
  qed
  obtain r1 d1 where e1: "ExecContext conn ctx sql_create [] (dbs s) = (r1, d1)"
    by (cases "ExecContext conn ctx sql_create [] (dbs s)")
  show ?thesis
  proof (cases r1)
    case (Some e)
    with assms e1 have "applied s' = applied s" by (auto simp: critical_section_def)
    then show ?thesis by (rule triv)
  next
    case None
    obtain g d2 where e2: "getCompletedMigrations conn ctx d1 = (g, d2)"
      by (cases "getCompletedMigrations conn ctx d1")
    show ?thesis
    proof (cases g)
      case (Return ce)
      obtain c eo where ce: "ce = (c, eo)" by (cases ce)
      show ?thesis
      proof (cases eo)
        case (Some e)
        with assms e1 None e2 Return ce have "applied s' = applied s"
          by (auto simp: critical_section_def)
        then show ?thesis by (rule triv)
      next
        case None3: None
        obtain err s3 where lp:
          "apply_loop conn ctx (sort_pending (pending_of rt migs c)) (s\<lparr>dbs := d2\<rparr>) = (err, s3)"
          by (cases "apply_loop conn ctx (sort_pending (pending_of rt migs c)) (s\<lparr>dbs := d2\<rparr>)")
        with assms e1 None e2 Return ce None3 have "s' = s3"
          by (auto simp: critical_section_def Let_def)
        with apply_loop_take [OF lp] show ?thesis by auto
      qed
    next
      case (Panic p)
      with assms e1 None e2 have "applied s' = applied s" by (auto simp: critical_section_def)
      then show ?thesis by (rule triv)
    next
      case Blocked
      with assms e1 None e2 have "applied s' = applied s" by (auto simp: critical_section_def)
      then show ?thesis by (rule triv)
    qed
  qed
qed

lemma mutexGuard_applied:
  assumes "mutexGuard_Guard ctx conn (critical_section rt migs conn) s = (r, s')"
  shows "\<exists>c k. applied s' = applied s @ map Name (take k (sort_pending (pending_of rt migs c)))"
proof (cases "mu s")
  case True
  with assms have "applied s' = applied s" by (auto simp: mutexGuard_Guard_def)
  then have "applied s' = applied s @ map Name (take 0 (sort_pending (pending_of rt migs [])))"
    by simp
  then show ?thesis by blast
next
  case False
  obtain r2 s2 where f: "critical_section rt migs conn ctx (s\<lparr>mu := True\<rparr>) = (r2, s2)"
    by (cases "critical_section rt migs conn ctx (s\<lparr>mu := True\<rparr>)")
  from assms False f have "applied s' = applied s2"
    by (cases r2) (auto simp: mutexGuard_Guard_def)
  with critical_section_applied [OF f] show ?thesis by simp
qed

lemma GuardMySQL_applied:
  assumes "GuardMySQL ctx conn (critical_section rt migs conn) s = (r, s')"
  shows "\<exists>c k. applied s' = applied s @ map Name (take k (sort_pending (pending_of rt migs c)))"
proof -
  obtain r1 d1 where e1: "ExecContext conn ctx sql_get_lock [] (dbs s) = (r1, d1)"
    by (cases "ExecContext conn ctx sql_get_lock [] (dbs s)")
  show ?thesis
  proof (cases r1)
    case (Some e)
    with assms e1 have "applied s' = applied s" by (auto simp: GuardMySQL_def)
    then have "applied s' = applied s @ map Name (take 0 (sort_pending (pending_of rt migs [])))"
      by simp
    then show ?thesis by blast
  next
    case None
    obtain r2 s2 where f: "critical_section rt migs conn ctx (s\<lparr>dbs := d1\<rparr>) = (r2, s2)"
      by (cases "critical_section rt migs conn ctx (s\<lparr>dbs := d1\<rparr>)")
    from assms e1 None f have "applied s' = applied s2"
      by (cases r2) (auto simp: GuardMySQL_def Let_def split: prod.splits)
    with critical_section_applied [OF f] show ?thesis by simp
  qed
qed

lemma Migrate_names:
  assumes g: "guard m = mutexGuard_Guard \<or> guard m = GuardMySQL"
    and run: "Migrate rt m ctx s = (Return (names, err), s')"
  shows "names = [] \<or>
         (\<exists>migs c k. loadMigrations (Sum256 rt) (fs m) (glob m) = Inr migs \<and>
            names = map Name (take k (sort_pending (pending_of rt migs c))))"
proof (cases "loadMigrations (Sum256 rt) (fs m) (glob m)")
  case (Inl e)
  with run show ?thesis by (simp add: Migrate_def)
next
  case (Inr migs)
  obtain r1 d1 where c1: "Conn (db m) ctx (dbs s) = (r1, d1)"
    by (cases "Conn (db m) ctx (dbs s)")
  show ?thesis
  proof (cases r1)
    case (Some e)
    with run Inr c1 show ?thesis by (simp add: Migrate_def)
  next
    case None
    let ?s1 = "s\<lparr>applied := [], dbs := d1\<rparr>"
    obtain r2 s2 where gd:
      "guard m ctx (db m) (critical_section rt migs (db m)) ?s1 = (r2, s2)"
      by (cases "guard m ctx (db m) (critical_section rt migs (db m)) ?s1")
    from run Inr c1 None gd have nm: "names = applied s2"
      by (cases r2) (auto simp: Migrate_def)
    from g gd have "\<exists>c k. applied s2 = applied ?s1 @ map Name (take k (sort_pending (pending_of rt migs c)))"
      using mutexGuard_applied GuardMySQL_applied by metis
    with nm Inr show ?thesis by auto
  qed
qed

section \<open>The order of application\<close>

lemma sorted_names_take:
  assumes "distinct (map Name xs)"
  shows "sorted_wrt (\<lambda>a b. strings_Compare a b < 0) (map Name (take k (sort_pending xs)))"
proof -
  have "mset (map Name (sort_pending xs)) = mset (map Name xs)"
    by (simp add: mset_sort_pending)
  then have "distinct (map Name (sort_pending xs))"
    using assms mset_eq_imp_distinct_iff by blast
  with sorted_sort_pending [of xs] have "sorted_wrt (<) (map Name (sort_pending xs))"
    by (simp add: strict_sorted_iff)
  then have "sorted_wrt (<) (take k (map Name (sort_pending xs)))"
    by (rule sorted_wrt_take)
  then show ?thesis
    by (simp add: take_map strings_Compare_less [abs_def])
qed

text \<open>
  The names a run returns are in strictly ascending order, whether or not the run got as
  far as the loop.
\<close>

lemma Migrate_names_sorted:
  assumes g: "guard m = mutexGuard_Guard \<or> guard m = GuardMySQL"
    and perm: "\<forall>kvs. mset (range_order rt kvs) = mset kvs"
    and run: "Migrate rt m ctx s = (Return (names, err), s')"
  shows "sorted_wrt (\<lambda>a b. strings_Compare a b < 0) names"
proof -
  from Migrate_names [OF g run] show ?thesis
  proof
    assume "names = []"
    then show ?thesis by simp
  next
    assume "\<exists>migs c k. loadMigrations (Sum256 rt) (fs m) (glob m) = Inr migs \<and>
              names = map Name (take k (sort_pending (pending_of rt migs c)))"
    then obtain migs c k where ld: "loadMigrations (Sum256 rt) (fs m) (glob m) = Inr migs"
      and nm: "names = map Name (take k (sort_pending (pending_of rt migs c)))" by auto
    have "keyed (Sum256 rt) migs" using ld by (rule keyed_loadMigrations)
    moreover have "mset (range_order rt migs) = mset migs" using perm by simp
    ultimately have "distinct (map Name (pending_of rt migs c))"
      by (rule pending_of_names_distinct)
    then show ?thesis unfolding nm by (rule sorted_names_take)
  qed
qed

section \<open>Determinism\<close>

lemma critical_section_independent:
  assumes k: "keyed sha migs"
    and p1: "mset (range_order rt1 migs) = mset migs"
    and p2: "mset (range_order rt2 migs) = mset migs"
  shows "critical_section rt1 migs conn = critical_section rt2 migs conn"
proof (intro ext)
  fix ctx s
  have eq: "\<And>c. sort_pending (pending_of rt1 migs c) = sort_pending (pending_of rt2 migs c)"
    using k p1 p2 by (rule sorted_pending_independent)
  show "critical_section rt1 migs conn ctx s = critical_section rt2 migs conn ctx s"
    by (simp only: critical_section_def eq)
qed

text \<open>
  C10. The order in which \<^verbatim>\<open>range\<close> visits the map of loaded migrations has no
  influence on what \<^verbatim>\<open>Migrate\<close> does: with the same file system, database and guard,
  two runs that differ only in that order return the same names and error and leave the
  same state.
\<close>

theorem Migrate_deterministic:
  assumes p1: "\<forall>kvs. mset (range_order rt kvs) = mset kvs"
    and p2: "\<forall>kvs. mset (ro kvs) = mset kvs"
  shows "Migrate (rt\<lparr>range_order := ro\<rparr>) m ctx s = Migrate rt m ctx s"
proof (cases "loadMigrations (Sum256 rt) (fs m) (glob m)")
  case (Inl e)
  then show ?thesis by (simp add: Migrate_def)
next
  case (Inr migs)
  have k: "keyed (Sum256 rt) migs" using Inr by (rule keyed_loadMigrations)
  have a: "mset (range_order (rt\<lparr>range_order := ro\<rparr>) migs) = mset migs" using p2 by simp
  have b: "mset (range_order rt migs) = mset migs" using p1 by simp
  have cs: "critical_section (rt\<lparr>range_order := ro\<rparr>) migs (db m) = critical_section rt migs (db m)"
    using k a b by (rule critical_section_independent)
  have sh: "Sum256 (rt\<lparr>range_order := ro\<rparr>) = Sum256 rt" by simp
  show ?thesis
    by (simp only: Migrate_def sh Inr sum.case cs)
qed

theorem Migrate_deterministic_witness:
  "(\<forall>kvs. mset (range_order ex_rt kvs) = mset kvs) \<and>
   (\<forall>kvs. mset ((\<lambda>kvs :: stmts. kvs) kvs) = mset kvs) \<and>
   Migrate (ex_rt\<lparr>range_order := (\<lambda>kvs. kvs)\<rparr>) ex_migrator Background ex_state
     = Migrate ex_rt ex_migrator Background ex_state \<and>
   fst (Migrate ex_rt ex_migrator Background ex_state)
     = Return ([''002-first.sql'', ''01-second.sql''], None)"
proof -
  have h1: "\<forall>kvs. mset (range_order ex_rt kvs) = mset kvs"
    by (simp add: ex_rt_def)
  have h2: "\<forall>kvs. mset ((\<lambda>kvs :: stmts. kvs) kvs) = mset kvs"
    by simp
  have h3: "fst (Migrate ex_rt ex_migrator Background ex_state)
              = Return ([''002-first.sql'', ''01-second.sql''], None)"
    by code_simp
  from Migrate_deterministic [OF h1 h2, of ex_migrator Background ex_state] h1 h3
  show ?thesis by simp
qed

section \<open>The fingerprint depends on the name only\<close>

lemma names_of_loadMigrations:
  assumes "loadMigrations sha fs1 pat = Inr migs1"
    and "loadMigrations sha fs2 pat = Inr migs2"
    and "Glob fs1 pat = Glob fs2 pat"
  shows "names_of migs1 = names_of migs2"
proof -
  from assms(1) obtain names where g1: "Glob fs1 pat = Inr names"
    and l1: "load_loop sha fs1 names [] = Inr migs1"
    by (auto simp: loadMigrations_def split: sum.splits)
  from assms(3) g1 have g2: "Glob fs2 pat = Inr names" by simp
  from assms(2) have l2: "load_loop sha fs2 names [] = Inr migs2"
    by (simp add: loadMigrations_def g2)
  have "names_of ([] :: stmts) = names_of []" by simp
  then show ?thesis using l1 l2 by (rule names_of_load_loop)
qed

lemma pending_names_filter:
  "map (\<lambda>kv. Name (snd kv)) (filter (\<lambda>(sm, m). sm \<notin> set c) xs)
     = map snd (filter (\<lambda>kn. fst kn \<notin> set c) (names_of xs))"
  by (induction xs) (auto simp: names_of_def)

lemma pending_names_mset:
  assumes "mset (range_order rt migs) = mset migs"
  shows "mset (map Name (pending_of rt migs c))
           = mset (map snd (filter (\<lambda>kn. fst kn \<notin> set c) (names_of migs)))"
proof -
  have "mset (map Name (pending_of rt migs c))
          = mset (map (\<lambda>kv. Name (snd kv)) (filter (\<lambda>(sm, m). sm \<notin> set c) (range_order rt migs)))"
    by (simp only: pending_of_names)
  also have "\<dots> = mset (map (\<lambda>kv. Name (snd kv)) (filter (\<lambda>(sm, m). sm \<notin> set c) migs))"
    using assms by simp
  finally show ?thesis by (simp only: pending_names_filter)
qed

lemma names_sort_pending: "map Name (sort_pending xs) = sort (map Name xs)"
proof -
  have "mset (map Name (sort_pending xs)) = mset (map Name xs)"
    by (simp add: mset_sort_pending)
  then have "sort (map Name xs) = map Name (sort_pending xs)"
    using sorted_sort_pending by (rule properties_for_sort)
  then show ?thesis by simp
qed

lemma sort_mset_cong:
  fixes xs ys :: "string list"
  assumes "mset xs = mset ys"
  shows "sort xs = sort ys"
proof -
  have "mset (sort ys) = mset xs" using assms by simp
  then show ?thesis using sorted_sort by (rule properties_for_sort)
qed

lemma keyed_fingerprint:
  assumes k: "keyed sha migs" and e: "(k', m) \<in> set migs"
  shows "k' = Sum m \<and> Sum m = hex_EncodeToString (sha (bytes (Name m))) \<and>
         set (Sum m) \<subseteq> set ''0123456789abcdef'' \<and>
         length (Sum m) = 2 * length (sha (bytes (Name m)))"
proof -
  from k e have a: "k' = Sum m" and b: "Sum m = hexsum_of sha (Name m)"
    unfolding keyed_def by auto
  have c: "Sum m = hex_EncodeToString (sha (bytes (Name m)))"
    using b by (simp add: hexsum_of_def)
  have "set (Sum m) \<subseteq> set hextable"
    unfolding c by (rule hex_EncodeToString_chars)
  then have d: "set (Sum m) \<subseteq> set ''0123456789abcdef''" by (simp only: hextable_def)
  have "length (Sum m) = 2 * length (sha (bytes (Name m)))"
    unfolding c by (rule hex_EncodeToString_length)
  with a c d show ?thesis by simp
qed

text \<open>
  C5. Every loaded migration is stored under its sum, which is the lowercase hexadecimal
  rendering of the digest of its name: two characters of \<^verbatim>\<open>0123456789abcdef\<close> for
  each byte of the digest. The bodies play no part in it: two file systems with the same
  listing give the same keys and names, and the same names of pending units, whatever the
  files contain. Two names have the same fingerprint exactly when their digests are equal.
\<close>

theorem fingerprint_of_name_only:
  assumes l1: "loadMigrations (Sum256 rt) fs1 pat = Inr migs1"
    and l2: "loadMigrations (Sum256 rt) fs2 pat = Inr migs2"
    and g: "Glob fs1 pat = Glob fs2 pat"
    and perm: "\<forall>kvs. mset (range_order rt kvs) = mset kvs"
  shows "(\<forall>(k, m) \<in> set migs1.
            k = Sum m \<and> Sum m = hex_EncodeToString (Sum256 rt (bytes (Name m))) \<and>
            set (Sum m) \<subseteq> set ''0123456789abcdef'' \<and>
            length (Sum m) = 2 * length (Sum256 rt (bytes (Name m)))) \<and>
         names_of migs1 = names_of migs2 \<and>
         map Name (sort_pending (pending_of rt migs1 completed))
           = map Name (sort_pending (pending_of rt migs2 completed)) \<and>
         (\<forall>n1 n2. hexsum_of (Sum256 rt) n1 = hexsum_of (Sum256 rt) n2
                    \<longleftrightarrow> Sum256 rt (bytes n1) = Sum256 rt (bytes n2))"
proof -
  have k1: "keyed (Sum256 rt) migs1" using l1 by (rule keyed_loadMigrations)
  have A: "\<forall>(k, m) \<in> set migs1.
            k = Sum m \<and> Sum m = hex_EncodeToString (Sum256 rt (bytes (Name m))) \<and>
            set (Sum m) \<subseteq> set ''0123456789abcdef'' \<and>
            length (Sum m) = 2 * length (Sum256 rt (bytes (Name m)))"
  proof (intro ballI)
    fix x assume x: "x \<in> set migs1"
    obtain k m where km: "x = (k, m)" by (cases x)
    from x km have "(k, m) \<in> set migs1" by simp
    then have F: "k = Sum m \<and> Sum m = hex_EncodeToString (Sum256 rt (bytes (Name m))) \<and>
            set (Sum m) \<subseteq> set ''0123456789abcdef'' \<and>
            length (Sum m) = 2 * length (Sum256 rt (bytes (Name m)))"
      by (rule keyed_fingerprint [OF k1])
    show "case x of (k, m) \<Rightarrow>
            k = Sum m \<and> Sum m = hex_EncodeToString (Sum256 rt (bytes (Name m))) \<and>
            set (Sum m) \<subseteq> set ''0123456789abcdef'' \<and>
            length (Sum m) = 2 * length (Sum256 rt (bytes (Name m)))"
      unfolding km prod.case by (rule F)
  qed
  have B: "names_of migs1 = names_of migs2"
    using l1 l2 g by (rule names_of_loadMigrations)
  have p1: "mset (range_order rt migs1) = mset migs1" using perm by simp
  have p2: "mset (range_order rt migs2) = mset migs2" using perm by simp
  have "mset (map Name (pending_of rt migs1 completed)) = mset (map Name (pending_of rt migs2 completed))"
    by (simp only: pending_names_mset [OF p1] pending_names_mset [OF p2] B)
  then have "sort (map Name (pending_of rt migs1 completed)) = sort (map Name (pending_of rt migs2 completed))"
    by (rule sort_mset_cong)
  then have C: "map Name (sort_pending (pending_of rt migs1 completed))
           = map Name (sort_pending (pending_of rt migs2 completed))"
    by (simp only: names_sort_pending)
  have D: "\<forall>n1 n2. hexsum_of (Sum256 rt) n1 = hexsum_of (Sum256 rt) n2
                    \<longleftrightarrow> Sum256 rt (bytes n1) = Sum256 rt (bytes n2)"
    by (simp add: hexsum_of_eq_iff)
  from A B C D show ?thesis by (intro conjI)
qed

theorem fingerprint_of_name_only_witness:
  "loadMigrations (Sum256 ex_rt) ex_fs ''*.sql''
     = Inr [(''3030322d66697273742e73716c'',
             \<lparr>Sum = ''3030322d66697273742e73716c'', Name = ''002-first.sql'',
                SQL = ''CREATE TABLE t(id INT)''\<rparr>),
            (''30312d7365636f6e642e73716c'',
             \<lparr>Sum = ''30312d7365636f6e642e73716c'', Name = ''01-second.sql'',
                SQL = ''INSERT INTO t VALUES (1)''\<rparr>)] \<and>
   loadMigrations (Sum256 ex_rt) ex_fs_edited ''*.sql''
     = Inr [(''3030322d66697273742e73716c'',
             \<lparr>Sum = ''3030322d66697273742e73716c'', Name = ''002-first.sql'',
                SQL = ''CREATE TABLE t(id BIGINT)''\<rparr>),
            (''30312d7365636f6e642e73716c'',
             \<lparr>Sum = ''30312d7365636f6e642e73716c'', Name = ''01-second.sql'',
                SQL = ''INSERT INTO t VALUES (2)''\<rparr>)] \<and>
   Glob ex_fs ''*.sql'' = Glob ex_fs_edited ''*.sql'' \<and>
   (\<forall>kvs. mset (range_order ex_rt kvs) = mset kvs) \<and>
   map Name (sort_pending (pending_of ex_rt
       [(''3030322d66697273742e73716c'',
         \<lparr>Sum = ''3030322d66697273742e73716c'', Name = ''002-first.sql'',
            SQL = ''CREATE TABLE t(id INT)''\<rparr>),
        (''30312d7365636f6e642e73716c'',
         \<lparr>Sum = ''30312d7365636f6e642e73716c'', Name = ''01-second.sql'',
            SQL = ''INSERT INTO t VALUES (1)''\<rparr>)]
       [''30312d7365636f6e642e73716c'']))
   = map Name (sort_pending (pending_of ex_rt
       [(''3030322d66697273742e73716c'',
         \<lparr>Sum = ''3030322d66697273742e73716c'', Name = ''002-first.sql'',
            SQL = ''CREATE TABLE t(id BIGINT)''\<rparr>),
        (''30312d7365636f6e642e73716c'',
         \<lparr>Sum = ''30312d7365636f6e642e73716c'', Name = ''01-second.sql'',
            SQL = ''INSERT INTO t VALUES (2)''\<rparr>)]
       [''30312d7365636f6e642e73716c'']))"
proof -
  have h1: "loadMigrations (Sum256 ex_rt) ex_fs ''*.sql''
     = Inr [(''3030322d66697273742e73716c'',
             \<lparr>Sum = ''3030322d66697273742e73716c'', Name = ''002-first.sql'',
                SQL = ''CREATE TABLE t(id INT)''\<rparr>),
            (''30312d7365636f6e642e73716c'',
             \<lparr>Sum = ''30312d7365636f6e642e73716c'', Name = ''01-second.sql'',
                SQL = ''INSERT INTO t VALUES (1)''\<rparr>)]"
    by code_simp
  have h2: "loadMigrations (Sum256 ex_rt) ex_fs_edited ''*.sql''
     = Inr [(''3030322d66697273742e73716c'',
             \<lparr>Sum = ''3030322d66697273742e73716c'', Name = ''002-first.sql'',
                SQL = ''CREATE TABLE t(id BIGINT)''\<rparr>),
            (''30312d7365636f6e642e73716c'',
             \<lparr>Sum = ''30312d7365636f6e642e73716c'', Name = ''01-second.sql'',
                SQL = ''INSERT INTO t VALUES (2)''\<rparr>)]"
    by code_simp
  have h3: "Glob ex_fs ''*.sql'' = Glob ex_fs_edited ''*.sql''"
    by (simp add: ex_fs_def ex_fs_edited_def mem_fs_def)
  have h4: "\<forall>kvs. mset (range_order ex_rt kvs) = mset kvs"
    by (simp add: ex_rt_def)
  note T = fingerprint_of_name_only [OF h1 h2 h3 h4, of "[''30312d7365636f6e642e73716c'']"]
  note h5 = T [THEN conjunct2, THEN conjunct2, THEN conjunct1]
  from h1 h2 h3 h4 h5 show ?thesis by (intro conjI)
qed

section \<open>Reading the completed sums\<close>

lemma getCompletedMigrations_query_fails:
  "QueryContext conn ctx sql_select d = (Inl err, d1) \<Longrightarrow>
     getCompletedMigrations conn ctx d = (Panic err, d1)"
  by (simp add: getCompletedMigrations_def)

lemma scan_loop_fails:
  "scan_loop (map Inr pre @ Inl err # rest) acc = Inl err"
  by (induction pre arbitrary: acc) simp_all

lemma getCompletedMigrations_scan_fails:
  "QueryContext conn ctx sql_select d = (Inr rs, d1) \<Longrightarrow>
   scans rs = map Inr pre @ Inl err # rest \<Longrightarrow>
     getCompletedMigrations conn ctx d = (Return ([], Some err), d1)"
  by (simp add: getCompletedMigrations_def scan_loop_fails)

text \<open>
  C1. When the \<^verbatim>\<open>SELECT\<close> on the table fails, \<^verbatim>\<open>getCompletedMigrations\<close> panics
  with the error instead of returning it, and so does \<^verbatim>\<open>Migrate\<close>: on a connection
  whose queries fail, the call ends in a panic and returns nothing.
\<close>

theorem Migrate_panics_on_query_failure:
  "fst (Migrate ex_rt (New ex_driver_query_fails ex_fs []) Background ex_state)
     = Panic (Opaque ''invalid connection'')"
  by code_simp

section \<open>The guard of MySQL\<close>

lemma errors_Join_pair:
  "errors_Join [err, re] =
     (case (err, re) of
        (None, None) \<Rightarrow> None
      | (Some e, None) \<Rightarrow> Some (JoinError [e])
      | (None, Some r) \<Rightarrow> Some (JoinError [r])
      | (Some e, Some r) \<Rightarrow> Some (JoinError [e, r]))"
  by (cases err; cases re) (simp_all add: errors_Join_def List.map_filter_simps)

text \<open>
  C6. \<^verbatim>\<open>GuardMySQL\<close> first executes \<^verbatim>\<open>SELECT GET_LOCK('flit', -1)\<close>. When that
  succeeded and the critical section has returned, with an error or without, it executes
  \<^verbatim>\<open>SELECT RELEASE_LOCK('flit')\<close> on the state the critical section left, and its
  result is the join of the two errors: nil when both are nil, and otherwise an error
  that holds each of them that is not nil.
\<close>

theorem GuardMySQL_locks_and_releases:
  assumes acq: "ExecContext conn ctx sql_get_lock [] (dbs s) = (None, d1)"
    and body: "f ctx (s\<lparr>dbs := d1\<rparr>) = (Return err, s2)"
    and rel: "ExecContext conn ctx sql_release_lock [] (dbs s2) = (re, d3)"
  shows "GuardMySQL ctx conn f s = (Return (errors_Join [err, re]), s2\<lparr>dbs := d3\<rparr>) \<and>
         errors_Join [err, re] =
           (case (err, re) of
              (None, None) \<Rightarrow> None
            | (Some e, None) \<Rightarrow> Some (JoinError [e])
            | (None, Some r) \<Rightarrow> Some (JoinError [r])
            | (Some e, Some r) \<Rightarrow> Some (JoinError [e, r])) \<and>
         sql_get_lock = ''SELECT GET_LOCK('' @ [CHR 0x27] @ ''flit'' @ [CHR 0x27] @ '', -1)'' \<and>
         sql_release_lock = ''SELECT RELEASE_LOCK('' @ [CHR 0x27] @ ''flit'' @ [CHR 0x27] @ '')''"
proof -
  have "GuardMySQL ctx conn f s = (Return (errors_Join [err, re]), s2\<lparr>dbs := d3\<rparr>)"
    by (simp add: GuardMySQL_def acq body rel)
  then show ?thesis
    by (simp only: errors_Join_pair sql_get_lock_def sql_release_lock_def simp_thms)
qed

theorem GuardMySQL_locks_and_releases_witness:
  "ExecContext (mem_driver ex_effect) Background sql_get_lock [] (dbs ex_state)
     = (None, \<lparr>flits = None, user = [sql_get_lock]\<rparr>) \<and>
   (\<lambda>ctx s. (Return (Some (Opaque ''boom'')), s)) Background
       (ex_state\<lparr>dbs := \<lparr>flits = None, user = [sql_get_lock]\<rparr>\<rparr>)
     = (Return (Some (Opaque ''boom'')), ex_state\<lparr>dbs := \<lparr>flits = None, user = [sql_get_lock]\<rparr>\<rparr>) \<and>
   ExecContext (mem_driver ex_effect) Background sql_release_lock []
       (dbs (ex_state\<lparr>dbs := \<lparr>flits = None, user = [sql_get_lock]\<rparr>\<rparr>))
     = (None, \<lparr>flits = None, user = [sql_get_lock, sql_release_lock]\<rparr>) \<and>
   GuardMySQL Background (mem_driver ex_effect) (\<lambda>ctx s. (Return (Some (Opaque ''boom'')), s)) ex_state
     = (Return (Some (JoinError [Opaque ''boom''])),
        ex_state\<lparr>dbs := \<lparr>flits = None, user = [sql_get_lock, sql_release_lock]\<rparr>\<rparr>)"
proof -
  let ?f = "\<lambda>(ctx :: Context) (s :: string list memdb state). (Return (Some (Opaque ''boom'')), s)"
  let ?d1 = "\<lparr>flits = None, user = [sql_get_lock]\<rparr>"
  let ?d3 = "\<lparr>flits = None, user = [sql_get_lock, sql_release_lock]\<rparr>"
  have h1: "ExecContext (mem_driver ex_effect) Background sql_get_lock [] (dbs ex_state) = (None, ?d1)"
    by code_simp
  have h2: "?f Background (ex_state\<lparr>dbs := ?d1\<rparr>) = (Return (Some (Opaque ''boom'')), ex_state\<lparr>dbs := ?d1\<rparr>)"
    by simp
  have h3: "ExecContext (mem_driver ex_effect) Background sql_release_lock []
              (dbs (ex_state\<lparr>dbs := ?d1\<rparr>)) = (None, ?d3)"
    by code_simp
  note T = GuardMySQL_locks_and_releases [of "mem_driver ex_effect" Background ex_state ?d1 ?f, OF h1 h2 h3]
  from T [THEN conjunct1] have h4:
    "GuardMySQL Background (mem_driver ex_effect) ?f ex_state
       = (Return (Some (JoinError [Opaque ''boom''])), ex_state\<lparr>dbs := ?d3\<rparr>)"
    by (simp add: errors_Join_pair)
  from h1 h2 h3 h4 show ?thesis by (intro conjI)
qed

section \<open>Failures before the guard\<close>

lemma Migrate_discovery_fails:
  assumes "loadMigrations (Sum256 rt) (fs m) (glob m) = Inl e"
  shows "Migrate rt m ctx s = (Return ([], Some e), s\<lparr>applied := []\<rparr>)"
  using assms by (simp add: Migrate_def)

lemma Migrate_Conn_fails:
  assumes "loadMigrations (Sum256 rt) (fs m) (glob m) = Inr migs"
    and "Conn (db m) ctx (dbs s) = (Some e, d')"
  shows "Migrate rt m ctx s = (Return ([], Some e), s\<lparr>applied := [], dbs := d'\<rparr>)"
  using assms by (simp add: Migrate_def)

text \<open>
  C8. When discovery fails, or when no connection can be had, \<^verbatim>\<open>Migrate\<close> returns
  that error and no names. The guard is not called and no statement is executed: the
  result is the same whatever the guard is and whatever executing a statement, running a
  query or closing the connection would do. The mutex is not touched, and the database is
  as it was (after a failed discovery) or as the failed \<^verbatim>\<open>db.Conn\<close> left it.
\<close>

theorem Migrate_aborts_before_guard:
  assumes "loadMigrations (Sum256 rt) (fs m) (glob m) = Inl e \<and> d' = dbs s \<or>
           (\<exists>migs. loadMigrations (Sum256 rt) (fs m) (glob m) = Inr migs) \<and>
             Conn (db m) ctx (dbs s) = (Some e, d')"
  shows "Migrate rt m ctx s = (Return ([], Some e), s\<lparr>applied := [], dbs := d'\<rparr>) \<and>
         (\<forall>g ex qu cl.
            Migrate rt (m\<lparr>guard := g,
                          db := (db m)\<lparr>ExecContext := ex, QueryContext := qu, Close := cl\<rparr>\<rparr>) ctx s
              = (Return ([], Some e), s\<lparr>applied := [], dbs := d'\<rparr>))"
  using assms
proof
  assume a: "loadMigrations (Sum256 rt) (fs m) (glob m) = Inl e \<and> d' = dbs s"
  then have "Migrate rt m ctx s = (Return ([], Some e), s\<lparr>applied := [], dbs := d'\<rparr>)"
    by (simp add: Migrate_discovery_fails)
  moreover have "\<forall>g ex qu cl.
            Migrate rt (m\<lparr>guard := g,
                          db := (db m)\<lparr>ExecContext := ex, QueryContext := qu, Close := cl\<rparr>\<rparr>) ctx s
              = (Return ([], Some e), s\<lparr>applied := [], dbs := d'\<rparr>)"
    using a by (simp add: Migrate_discovery_fails)
  ultimately show ?thesis by (rule conjI)
next
  assume a: "(\<exists>migs. loadMigrations (Sum256 rt) (fs m) (glob m) = Inr migs) \<and>
             Conn (db m) ctx (dbs s) = (Some e, d')"
  then obtain migs where ld: "loadMigrations (Sum256 rt) (fs m) (glob m) = Inr migs"
    and cn: "Conn (db m) ctx (dbs s) = (Some e, d')" by auto
  have "Migrate rt m ctx s = (Return ([], Some e), s\<lparr>applied := [], dbs := d'\<rparr>)"
    using ld cn by (rule Migrate_Conn_fails)
  moreover have "\<forall>g ex qu cl.
            Migrate rt (m\<lparr>guard := g,
                          db := (db m)\<lparr>ExecContext := ex, QueryContext := qu, Close := cl\<rparr>\<rparr>) ctx s
              = (Return ([], Some e), s\<lparr>applied := [], dbs := d'\<rparr>)"
    using ld cn by (simp add: Migrate_Conn_fails)
  ultimately show ?thesis by (rule conjI)
qed

theorem Migrate_aborts_before_guard_witness:
  "loadMigrations (Sum256 ex_rt) (fs (New (mem_driver ex_effect) ex_fs_unreadable []))
       (glob (New (mem_driver ex_effect) ex_fs_unreadable []))
     = Inl (Opaque ''open 001-first.sql: file does not exist'') \<and>
   Migrate ex_rt (New (mem_driver ex_effect) ex_fs_unreadable []) Background ex_state
     = (Return ([], Some (Opaque ''open 001-first.sql: file does not exist'')), ex_state) \<and>
   (\<exists>migs. loadMigrations (Sum256 ex_rt) (fs ex_migrator) (glob ex_migrator) = Inr migs) \<and>
   Conn (db ex_migrator) Canceled (dbs ex_state) = (Some ctx_error, dbs ex_state) \<and>
   Migrate ex_rt ex_migrator Canceled ex_state = (Return ([], Some ctx_error), ex_state)"
proof -
  let ?m = "New (mem_driver ex_effect) ex_fs_unreadable []"
  let ?e = "Opaque ''open 001-first.sql: file does not exist''"
  have st: "ex_state\<lparr>applied := [], dbs := dbs ex_state\<rparr> = ex_state"
    by (simp add: ex_state_def)
  have h1: "loadMigrations (Sum256 ex_rt) (fs ?m) (glob ?m) = Inl ?e"
    by code_simp
  then have "loadMigrations (Sum256 ex_rt) (fs ?m) (glob ?m) = Inl ?e \<and> dbs ex_state = dbs ex_state \<or>
           (\<exists>migs. loadMigrations (Sum256 ex_rt) (fs ?m) (glob ?m) = Inr migs) \<and>
             Conn (db ?m) Background (dbs ex_state) = (Some ?e, dbs ex_state)"
    by simp
  from Migrate_aborts_before_guard [OF this, THEN conjunct1]
  have h2: "Migrate ex_rt ?m Background ex_state = (Return ([], Some ?e), ex_state)"
    by (simp only: st)
  have "loadMigrations (Sum256 ex_rt) (fs ex_migrator) (glob ex_migrator)
          = Inr [(''3030322d66697273742e73716c'',
             \<lparr>Sum = ''3030322d66697273742e73716c'', Name = ''002-first.sql'',
                SQL = ''CREATE TABLE t(id INT)''\<rparr>),
            (''30312d7365636f6e642e73716c'',
             \<lparr>Sum = ''30312d7365636f6e642e73716c'', Name = ''01-second.sql'',
                SQL = ''INSERT INTO t VALUES (1)''\<rparr>)]"
    by code_simp
  then have h3: "\<exists>migs. loadMigrations (Sum256 ex_rt) (fs ex_migrator) (glob ex_migrator) = Inr migs"
    by (rule exI)
  have h4: "Conn (db ex_migrator) Canceled (dbs ex_state) = (Some ctx_error, dbs ex_state)"
    by (simp add: ex_migrator_def New_def mem_driver_def)
  from h3 h4 have "loadMigrations (Sum256 ex_rt) (fs ex_migrator) (glob ex_migrator) = Inl ctx_error
             \<and> dbs ex_state = dbs ex_state \<or>
           (\<exists>migs. loadMigrations (Sum256 ex_rt) (fs ex_migrator) (glob ex_migrator) = Inr migs) \<and>
             Conn (db ex_migrator) Canceled (dbs ex_state) = (Some ctx_error, dbs ex_state)"
    by (intro disjI2 conjI)
  from Migrate_aborts_before_guard [OF this, THEN conjunct1]
  have h5: "Migrate ex_rt ex_migrator Canceled ex_state = (Return ([], Some ctx_error), ex_state)"
    by (simp only: st)
  from h1 h2 h3 h4 h5 show ?thesis by (intro conjI)
qed

section \<open>Failure inside the loop\<close>

lemma apply_loop_fails_at:
  assumes ok: "apply_loop conn ctx pre s = (None, s1)"
    and fl: "ExecContext conn ctx (SQL u) [] (dbs s1) = (Some cause, d4) \<and>
               e = Errorf_w (''apply '' @ Name u) cause \<or>
             (\<exists>d. ExecContext conn ctx (SQL u) [] (dbs s1) = (None, d) \<and>
                  ExecContext conn ctx sql_insert [Sum u] d = (Some cause, d4)) \<and>
               e = Errorf_w (''record '' @ Name u) cause"
  shows "apply_loop conn ctx (pre @ u # post) s
           = (Some e, \<lparr>dbs = d4, applied = applied s @ map Name pre, mu = mu s\<rparr>)"
proof -
  have s1: "s1\<lparr>dbs := d4\<rparr> = \<lparr>dbs = d4, applied = applied s @ map Name pre, mu = mu s\<rparr>"
    using apply_loop_ok [OF ok] by (cases s1) simp
  have "apply_loop conn ctx (u # post) s1 = (Some e, s1\<lparr>dbs := d4\<rparr>)"
    using fl by auto
  then show ?thesis
    by (simp only: apply_loop_append ok prod.case option.case s1)
qed

lemma Errorf_w_parts:
  "Unwrap (Errorf_w pfx cause) = Some cause \<and> Error (Errorf_w pfx cause) = pfx @ '': '' @ Error cause"
  by (simp add: Errorf_w_def)

text \<open>
  C2. A run of \<^verbatim>\<open>Migrate\<close> under the default guard in which the units \<open>pre\<close> of the
  sorted pending list are applied and recorded and the next unit \<open>u\<close> fails, in its body
  or in the write of its record: the call returns the names of \<open>pre\<close>, in order, and an
  error that wraps the cause and whose message is \<^verbatim>\<open>apply\<close> or \<^verbatim>\<open>record\<close>, the name
  of \<open>u\<close>, a colon and the message of the cause. The database is left as the failed
  statement left it, closed: nothing of the units after \<open>u\<close> is executed, whatever they are.
\<close>

theorem Migrate_fail_stop:
  assumes g: "guard m = mutexGuard_Guard" and unlocked: "mu s = False"
    and ld: "loadMigrations (Sum256 rt) (fs m) (glob m) = Inr migs"
    and cn: "Conn (db m) ctx (dbs s) = (None, d1)"
    and cr: "ExecContext (db m) ctx sql_create [] d1 = (None, d2)"
    and gc: "getCompletedMigrations (db m) ctx d2 = (Return (completed, None), d3)"
    and pd: "sort_pending (pending_of rt migs completed) = pre @ u # post"
    and ok: "apply_loop (db m) ctx pre \<lparr>dbs = d3, applied = [], mu = True\<rparr> = (None, s1)"
    and fl: "ExecContext (db m) ctx (SQL u) [] (dbs s1) = (Some cause, d4) \<and>
               e = Errorf_w (''apply '' @ Name u) cause \<or>
             (\<exists>d. ExecContext (db m) ctx (SQL u) [] (dbs s1) = (None, d) \<and>
                  ExecContext (db m) ctx sql_insert [Sum u] d = (Some cause, d4)) \<and>
               e = Errorf_w (''record '' @ Name u) cause"
  shows "Migrate rt m ctx s
           = (Return (map Name pre, Some e),
              \<lparr>dbs = Close (db m) d4, applied = map Name pre, mu = False\<rparr>) \<and>
         Unwrap e = Some cause \<and>
         (Error e = ''apply '' @ Name u @ '': '' @ Error cause \<or>
          Error e = ''record '' @ Name u @ '': '' @ Error cause)"
proof -
  let ?S0 = "\<lparr>dbs = d3, applied = [], mu = True\<rparr>"
  have lp: "apply_loop (db m) ctx (pre @ u # post) ?S0
              = (Some e, \<lparr>dbs = d4, applied = applied ?S0 @ map Name pre, mu = mu ?S0\<rparr>)"
    using ok fl by (rule apply_loop_fails_at)
  have cs: "critical_section rt migs (db m) ctx \<lparr>dbs = d1, applied = [], mu = True\<rparr>
              = (Return (Some e), \<lparr>dbs = d4, applied = map Name pre, mu = True\<rparr>)"
    using lp by (simp add: critical_section_def cr gc pd)
  have st: "s\<lparr>applied := [], dbs := d1, mu := True\<rparr> = \<lparr>dbs = d1, applied = [], mu = True\<rparr>"
    by (cases s) simp
  have A: "Migrate rt m ctx s
           = (Return (map Name pre, Some e),
              \<lparr>dbs = Close (db m) d4, applied = map Name pre, mu = False\<rparr>)"
    using unlocked by (simp add: Migrate_def ld cn g mutexGuard_Guard_def st cs)
  have B: "Unwrap e = Some cause"
    using fl Errorf_w_parts by auto
  have C: "Error e = ''apply '' @ Name u @ '': '' @ Error cause \<or>
          Error e = ''record '' @ Name u @ '': '' @ Error cause"
    using fl Errorf_w_parts by auto
  from A B C show ?thesis by (intro conjI)
qed

theorem Migrate_fail_stop_witness:
  "sort_pending (pending_of ex_rt
      [ex_entry ''001.sql'' ''CREATE TABLE t(id INT)'',
       ex_entry ''002.sql'' ''INSERT INTO t VALUES (1)'',
       ex_entry ''003.sql'' ''BAD'',
       ex_entry ''004.sql'' ''INSERT INTO t VALUES (2)'',
       ex_entry ''005.sql'' ''INSERT INTO t VALUES (3)''] [])
     = [ex_mig ''001.sql'' ''CREATE TABLE t(id INT)'', ex_mig ''002.sql'' ''INSERT INTO t VALUES (1)'']
       @ ex_mig ''003.sql'' ''BAD''
       # [ex_mig ''004.sql'' ''INSERT INTO t VALUES (2)'', ex_mig ''005.sql'' ''INSERT INTO t VALUES (3)''] \<and>
   Migrate ex_rt (New (mem_driver ex_effect) ex_fs_five []) Background ex_state
     = (Return ([''001.sql'', ''002.sql''],
                Some (WrapError ''apply 003.sql: syntax error'' (Opaque ''syntax error''))),
        \<lparr>dbs = \<lparr>flits = Some [''3030312e73716c'', ''3030322e73716c''],
                 user = [''CREATE TABLE t(id INT)'', ''INSERT INTO t VALUES (1)'']\<rparr>,
         applied = [''001.sql'', ''002.sql''], mu = False\<rparr>)"
proof -
  let ?m = "New (mem_driver ex_effect) ex_fs_five []"
  let ?migs = "[ex_entry ''001.sql'' ''CREATE TABLE t(id INT)'',
       ex_entry ''002.sql'' ''INSERT INTO t VALUES (1)'',
       ex_entry ''003.sql'' ''BAD'',
       ex_entry ''004.sql'' ''INSERT INTO t VALUES (2)'',
       ex_entry ''005.sql'' ''INSERT INTO t VALUES (3)'']"
  let ?pre = "[ex_mig ''001.sql'' ''CREATE TABLE t(id INT)'', ex_mig ''002.sql'' ''INSERT INTO t VALUES (1)'']"
  let ?u = "ex_mig ''003.sql'' ''BAD''"
  let ?post = "[ex_mig ''004.sql'' ''INSERT INTO t VALUES (2)'', ex_mig ''005.sql'' ''INSERT INTO t VALUES (3)'']"
  let ?d2 = "\<lparr>flits = Some [], user = [] :: string list\<rparr>"
  let ?d4 = "\<lparr>flits = Some [''3030312e73716c'', ''3030322e73716c''],
                 user = [''CREATE TABLE t(id INT)'', ''INSERT INTO t VALUES (1)'']\<rparr>"
  let ?s1 = "\<lparr>dbs = ?d4, applied = [''001.sql'', ''002.sql''], mu = True\<rparr>"
  let ?cause = "Opaque ''syntax error''"
  let ?e = "WrapError ''apply 003.sql: syntax error'' (Opaque ''syntax error'')"
  have g: "guard ?m = mutexGuard_Guard" by (simp add: New_def)
  have unlocked: "mu ex_state = False" by (simp add: ex_state_def)
  have ld: "loadMigrations (Sum256 ex_rt) (fs ?m) (glob ?m) = Inr ?migs" by code_simp
  have cn: "Conn (db ?m) Background (dbs ex_state) = (None, dbs ex_state)"
    by (simp add: New_def mem_driver_def)
  have cr: "ExecContext (db ?m) Background sql_create [] (dbs ex_state) = (None, ?d2)" by code_simp
  have gc: "getCompletedMigrations (db ?m) Background ?d2 = (Return ([], None), ?d2)" by code_simp
  have pd: "sort_pending (pending_of ex_rt ?migs []) = ?pre @ ?u # ?post" by code_simp
  have ok: "apply_loop (db ?m) Background ?pre \<lparr>dbs = ?d2, applied = [], mu = True\<rparr> = (None, ?s1)"
    by code_simp
  have f1: "ExecContext (db ?m) Background (SQL ?u) [] (dbs ?s1) = (Some ?cause, ?d4)" by code_simp
  have f2: "?e = Errorf_w (''apply '' @ Name ?u) ?cause" by code_simp
  from f1 f2 have fl:
    "ExecContext (db ?m) Background (SQL ?u) [] (dbs ?s1) = (Some ?cause, ?d4) \<and>
       ?e = Errorf_w (''apply '' @ Name ?u) ?cause \<or>
     (\<exists>d. ExecContext (db ?m) Background (SQL ?u) [] (dbs ?s1) = (None, d) \<and>
          ExecContext (db ?m) Background sql_insert [Sum ?u] d = (Some ?cause, ?d4)) \<and>
       ?e = Errorf_w (''record '' @ Name ?u) ?cause"
    by (intro disjI1 conjI)
  have cl: "Close (db ?m) ?d4 = ?d4" by (simp add: New_def mem_driver_def)
  have nm: "map Name ?pre = [''001.sql'', ''002.sql'']" by (simp add: ex_mig_def)
  note T = Migrate_fail_stop [OF g unlocked ld cn cr gc pd ok fl, THEN conjunct1]
  have R: "Migrate ex_rt ?m Background ex_state
     = (Return ([''001.sql'', ''002.sql''], Some ?e),
        \<lparr>dbs = ?d4, applied = [''001.sql'', ''002.sql''], mu = False\<rparr>)"
    using T by (simp only: cl nm)
  from pd R show ?thesis by (intro conjI)
qed

section \<open>A successful run, step by step\<close>

lemma critical_section_ok_inv:
  assumes "critical_section rt migs conn ctx S = (Return None, S')"
  shows "\<exists>d2 d3 completed.
           ExecContext conn ctx sql_create [] (dbs S) = (None, d2) \<and>
           getCompletedMigrations conn ctx d2 = (Return (completed, None), d3) \<and>
           apply_loop conn ctx (sort_pending (pending_of rt migs completed)) (S\<lparr>dbs := d3\<rparr>)
             = (None, S')"
proof -
  obtain r1 d2 where e1: "ExecContext conn ctx sql_create [] (dbs S) = (r1, d2)"
    by (cases "ExecContext conn ctx sql_create [] (dbs S)")
  have r1: "r1 = None"
  proof (cases r1)
    case (Some e)
    with assms e1 show ?thesis by (simp add: critical_section_def)
  qed simp
  obtain g d3 where e2: "getCompletedMigrations conn ctx d2 = (g, d3)"
    by (cases "getCompletedMigrations conn ctx d2")
  from assms e1 r1 e2 obtain completed eo where g: "g = Return (completed, eo)"
    by (cases g) (auto simp: critical_section_def)
  have eo: "eo = None"
  proof (cases eo)
    case (Some e)
    with assms e1 r1 e2 g show ?thesis by (simp add: critical_section_def)
  qed simp
  obtain err S3 where lp:
    "apply_loop conn ctx (sort_pending (pending_of rt migs completed)) (S\<lparr>dbs := d3\<rparr>) = (err, S3)"
    by (cases "apply_loop conn ctx (sort_pending (pending_of rt migs completed)) (S\<lparr>dbs := d3\<rparr>)")
  from assms e1 r1 e2 g eo lp have "err = None" and "S3 = S'"
    by (simp_all add: critical_section_def Let_def)
  with e1 r1 e2 g eo lp show ?thesis by simp
qed

lemma mutexGuard_ok_inv:
  assumes "mutexGuard_Guard ctx conn f S = (Return err, S')"
  shows "mu S = False \<and> (\<exists>S2. f ctx (S\<lparr>mu := True\<rparr>) = (Return err, S2) \<and> S' = S2\<lparr>mu := False\<rparr>)"
proof (cases "mu S")
  case True
  with assms show ?thesis by (simp add: mutexGuard_Guard_def)
next
  case False
  obtain r S2 where f: "f ctx (S\<lparr>mu := True\<rparr>) = (r, S2)"
    by (cases "f ctx (S\<lparr>mu := True\<rparr>)")
  from assms False f show ?thesis
    by (cases r) (auto simp: mutexGuard_Guard_def)
qed

lemma Migrate_ok_inv:
  assumes "Migrate rt m ctx s = (Return (names, None), s1)"
  shows "\<exists>migs d1 S2.
           loadMigrations (Sum256 rt) (fs m) (glob m) = Inr migs \<and>
           Conn (db m) ctx (dbs s) = (None, d1) \<and>
           guard m ctx (db m) (critical_section rt migs (db m)) (s\<lparr>applied := [], dbs := d1\<rparr>)
             = (Return None, S2) \<and>
           names = applied S2 \<and> s1 = S2\<lparr>dbs := Close (db m) (dbs S2)\<rparr>"
proof (cases "loadMigrations (Sum256 rt) (fs m) (glob m)")
  case (Inl e)
  with assms show ?thesis by (simp add: Migrate_def)
next
  case (Inr migs)
  obtain r1 d1 where c1: "Conn (db m) ctx (dbs s) = (r1, d1)"
    by (cases "Conn (db m) ctx (dbs s)")
  have r1: "r1 = None"
  proof (cases r1)
    case (Some e)
    with assms Inr c1 show ?thesis by (simp add: Migrate_def)
  qed simp
  obtain r2 S2 where gd:
    "guard m ctx (db m) (critical_section rt migs (db m)) (s\<lparr>applied := [], dbs := d1\<rparr>) = (r2, S2)"
    by (cases "guard m ctx (db m) (critical_section rt migs (db m)) (s\<lparr>applied := [], dbs := d1\<rparr>)")
  from assms Inr c1 r1 gd have "r2 = Return None \<and> names = applied S2 \<and>
      s1 = S2\<lparr>dbs := Close (db m) (dbs S2)\<rparr>"
    by (cases r2) (auto simp: Migrate_def)
  with Inr c1 r1 gd show ?thesis by simp
qed

section \<open>The reference database\<close>

lemma scan_loop_all_ok: "scan_loop (map Inr t) acc = Inr (acc @ t)"
  by (induction t arbitrary: acc) simp_all

lemma mem_getCompleted:
  assumes "ctx \<noteq> Canceled" and "flits d = Some t"
  shows "getCompletedMigrations (mem_driver effect) ctx d = (Return (t, None), d)"
  using assms
  by (simp add: getCompletedMigrations_def mem_driver_def mem_Query_def scan_loop_all_ok)

lemma mem_create:
  assumes "ctx \<noteq> Canceled"
  shows "ExecContext (mem_driver effect) ctx sql_create [] d
           = (None, d\<lparr>flits := Some (case flits d of None \<Rightarrow> [] | Some t \<Rightarrow> t)\<rparr>)"
  using assms by (simp add: mem_driver_def mem_Exec_def)

lemma mem_create_existing:
  assumes "ctx \<noteq> Canceled" and "flits d = Some t"
  shows "ExecContext (mem_driver effect) ctx sql_create [] d = (None, d)"
  using assms by (simp add: mem_driver_def mem_Exec_def)

lemma sql_insert_neq_create: "sql_insert \<noteq> sql_create"
  by (simp add: sql_insert_def sql_create_def)

lemma mem_Exec_body_flits:
  assumes "ExecContext (mem_driver effect) ctx q [] d = (None, d')" and "flits d = Some t"
  shows "flits d' = Some t"
proof -
  have ne: "ctx \<noteq> Canceled" using assms(1) by (auto simp: mem_driver_def mem_Exec_def)
  show ?thesis
  proof (cases "q = sql_create")
    case True
    with assms ne show ?thesis by (auto simp: mem_driver_def mem_Exec_def)
  next
    case False
    show ?thesis
    proof (cases "q = sql_insert")
      case True
      with assms ne False show ?thesis by (auto simp: mem_driver_def mem_Exec_def)
    next
      case F2: False
      with assms ne False show ?thesis
        by (auto simp: mem_driver_def mem_Exec_def split: sum.splits)
    qed
  qed
qed

lemma mem_Exec_insert_flits:
  assumes "ExecContext (mem_driver effect) ctx sql_insert [v] d = (None, d')" and "flits d = Some t"
  shows "flits d' = Some (t @ [v])"
proof -
  have ne: "ctx \<noteq> Canceled" using assms(1) by (auto simp: mem_driver_def mem_Exec_def)
  with assms show ?thesis
    by (auto simp: mem_driver_def mem_Exec_def sql_insert_neq_create split: if_splits)
qed

lemma mem_apply_loop_flits:
  "apply_loop (mem_driver effect) ctx ms S = (None, S') \<Longrightarrow> flits (dbs S) = Some t \<Longrightarrow>
     flits (dbs S') = Some (t @ map Sum ms)"
proof (induction ms arbitrary: S t)
  case Nil
  then show ?case by simp
next
  case (Cons u ms)
  from Cons.prems(1) obtain d1 d2 where
    e1: "ExecContext (mem_driver effect) ctx (SQL u) [] (dbs S) = (None, d1)" and
    e2: "ExecContext (mem_driver effect) ctx sql_insert [Sum u] d1 = (None, d2)" and
    rest: "apply_loop (mem_driver effect) ctx ms (S\<lparr>dbs := d2, applied := applied S @ [Name u]\<rparr>) = (None, S')"
    by (auto split: prod.splits option.splits)
  have "flits d1 = Some t" using e1 Cons.prems(2) by (rule mem_Exec_body_flits)
  with e2 have "flits d2 = Some (t @ [Sum u])" by (rule mem_Exec_insert_flits)
  then have "flits (dbs (S\<lparr>dbs := d2, applied := applied S @ [Name u]\<rparr>)) = Some (t @ [Sum u])"
    by simp
  from Cons.IH [OF rest this] show ?case by simp
qed

section \<open>Idempotence\<close>

lemma pending_of_all_completed:
  assumes "\<And>k u. (k, u) \<in> set (range_order rt migs) \<Longrightarrow> k \<in> set c"
  shows "pending_of rt migs c = []"
proof -
  have "filter (\<lambda>(sm, m). sm \<notin> set c) (range_order rt migs) = []"
    using assms by (auto simp: filter_empty_conv)
  then show ?thesis by (simp add: pending_of_def)
qed

lemma sort_pending_Nil: "sort_pending [] = []"
  by (simp add: sort_pending_def slices_SortFunc_def)

lemma mem_Conn: "ctx \<noteq> Canceled \<Longrightarrow> Conn (mem_driver effect) ctx d = (None, d)"
  by (simp add: mem_driver_def)

lemma mem_Conn_ok: "Conn (mem_driver effect) ctx d = (None, d') \<Longrightarrow> ctx \<noteq> Canceled \<and> d' = d"
  by (auto simp: mem_driver_def split: if_splits)

lemma mem_Close: "Close (mem_driver effect) d = d"
  by (simp add: mem_driver_def)

lemma Migrate_mem_nothing_pending:
  assumes g: "guard m = mutexGuard_Guard" and d: "db m = mem_driver effect"
    and ctx: "ctx \<noteq> Canceled" and mu: "mu s1 = False"
    and fl: "flits (dbs s1) = Some t1"
    and ld: "loadMigrations (Sum256 rt) (fs m) (glob m) = Inr migs"
    and pd: "pending_of rt migs t1 = []"
  shows "Migrate rt m ctx s1 = (Return ([], None), s1\<lparr>applied := []\<rparr>)"
proof -
  let ?S = "s1\<lparr>applied := [], dbs := dbs s1, mu := True\<rparr>"
  have cs: "critical_section rt migs (mem_driver effect) ctx ?S = (Return None, ?S)"
    using ctx fl
    by (simp add: critical_section_def mem_create_existing mem_getCompleted pd sort_pending_Nil)
  have gd: "mutexGuard_Guard ctx (mem_driver effect) (critical_section rt migs (mem_driver effect))
              (s1\<lparr>applied := [], dbs := dbs s1\<rparr>) = (Return None, ?S\<lparr>mu := False\<rparr>)"
    using mu cs by (simp add: mutexGuard_Guard_def)
  have st: "?S\<lparr>mu := False, dbs := dbs s1\<rparr> = s1\<lparr>applied := []\<rparr>"
    using mu by (cases s1) simp
  show ?thesis
    using ctx gd st by (simp add: Migrate_def ld d g mem_Conn mem_Close)
qed

lemma Migrate_mem_first_run:
  assumes g: "guard m = mutexGuard_Guard" and d: "db m = mem_driver effect"
    and first: "Migrate rt m ctx s = (Return (names, None), s1)"
  shows "\<exists>migs t0.
           loadMigrations (Sum256 rt) (fs m) (glob m) = Inr migs \<and> ctx \<noteq> Canceled \<and>
           mu s1 = False \<and>
           flits (dbs s1) = Some (t0 @ map Sum (sort_pending (pending_of rt migs t0)))"
proof -
  from Migrate_ok_inv [OF first] obtain migs d1 S2 where
    ld: "loadMigrations (Sum256 rt) (fs m) (glob m) = Inr migs" and
    cn: "Conn (db m) ctx (dbs s) = (None, d1)" and
    gd: "guard m ctx (db m) (critical_section rt migs (db m)) (s\<lparr>applied := [], dbs := d1\<rparr>)
           = (Return None, S2)" and
    s1: "s1 = S2\<lparr>dbs := Close (db m) (dbs S2)\<rparr>"
    by blast
  from cn d have ctx: "ctx \<noteq> Canceled" by (auto dest: mem_Conn_ok)
  let ?S = "s\<lparr>applied := [], dbs := d1\<rparr>"
  from gd g d have "mutexGuard_Guard ctx (mem_driver effect)
      (critical_section rt migs (mem_driver effect)) ?S = (Return None, S2)"
    by simp
  from mutexGuard_ok_inv [OF this] obtain S3 where
    cs: "critical_section rt migs (mem_driver effect) ctx (?S\<lparr>mu := True\<rparr>) = (Return None, S3)" and
    S2: "S2 = S3\<lparr>mu := False\<rparr>"
    by blast
  from critical_section_ok_inv [OF cs] obtain d2 d3 completed where
    cr: "ExecContext (mem_driver effect) ctx sql_create [] (dbs (?S\<lparr>mu := True\<rparr>)) = (None, d2)" and
    gc: "getCompletedMigrations (mem_driver effect) ctx d2 = (Return (completed, None), d3)" and
    lp: "apply_loop (mem_driver effect) ctx (sort_pending (pending_of rt migs completed))
           (?S\<lparr>mu := True, dbs := d3\<rparr>) = (None, S3)"
    by auto
  let ?t0 = "case flits d1 of None \<Rightarrow> [] | Some t \<Rightarrow> t"
  from cr ctx have d2: "d2 = d1\<lparr>flits := Some ?t0\<rparr>" by (simp add: mem_create)
  then have f2: "flits d2 = Some ?t0" by simp
  from gc mem_getCompleted [OF ctx f2, of effect] have c: "completed = ?t0" and d3: "d3 = d2"
    by simp_all
  have "flits (dbs (?S\<lparr>mu := True, dbs := d3\<rparr>)) = Some ?t0" using d3 f2 by simp
  with lp have "flits (dbs S3) = Some (?t0 @ map Sum (sort_pending (pending_of rt migs completed)))"
    by (rule mem_apply_loop_flits)
  then have fl: "flits (dbs s1) = Some (?t0 @ map Sum (sort_pending (pending_of rt migs ?t0)))"
    using s1 S2 d c by (simp add: mem_Close)
  have "mu s1 = False" using s1 S2 by simp
  with ld ctx fl show ?thesis by blast
qed

lemma set_sorted_pending:
  assumes "keyed sha migs" and "mset (range_order rt migs) = mset migs"
  shows "set (sort_pending (pending_of rt migs c)) = {u \<in> snd ` set migs. Sum u \<notin> set c}"
  using set_pending_of [OF assms] by (simp add: set_sort_pending)

text \<open>
  C4. On a database that keeps the table \<^verbatim>\<open>flits\<close> as the tracking statements say and
  that the statements of the migrations do not touch, under the default guard: when a call
  of \<^verbatim>\<open>Migrate\<close> has returned without error, the next call with the same file
  system applies nothing. It returns no names and no error and leaves the database as it
  was. On each call the sorted pending list holds exactly the loaded migrations whose sum
  is not among the completed sums read at that call.
\<close>

theorem Migrate_idempotent:
  assumes g: "guard m = mutexGuard_Guard" and d: "db m = mem_driver effect"
    and perm: "\<forall>kvs. mset (range_order rt kvs) = mset kvs"
    and first: "Migrate rt m ctx s = (Return (names, None), s1)"
  shows "Migrate rt m ctx s1 = (Return ([], None), s1\<lparr>applied := []\<rparr>) \<and>
         (\<forall>migs c. loadMigrations (Sum256 rt) (fs m) (glob m) = Inr migs \<longrightarrow>
            set (sort_pending (pending_of rt migs c)) = {u \<in> snd ` set migs. Sum u \<notin> set c})"
proof -
  from Migrate_mem_first_run [OF g d first] obtain migs t0 where
    ld: "loadMigrations (Sum256 rt) (fs m) (glob m) = Inr migs" and
    ctx: "ctx \<noteq> Canceled" and mu: "mu s1 = False" and
    fl: "flits (dbs s1) = Some (t0 @ map Sum (sort_pending (pending_of rt migs t0)))"
    by blast
  have k: "keyed (Sum256 rt) migs" using ld by (rule keyed_loadMigrations)
  have p: "mset (range_order rt migs) = mset migs" using perm by simp
  have st: "set (range_order rt migs) = set migs" using p by (rule mset_eq_setD)
  let ?t1 = "t0 @ map Sum (sort_pending (pending_of rt migs t0))"
  have "pending_of rt migs ?t1 = []"
  proof (rule pending_of_all_completed)
    fix k' u assume "(k', u) \<in> set (range_order rt migs)"
    then have e: "(k', u) \<in> set migs" using st by simp
    have ku: "k' = Sum u" using keyedD [OF k e] k e unfolding keyed_def by auto
    show "k' \<in> set ?t1"
    proof (cases "k' \<in> set t0")
      case True
      then show ?thesis by simp
    next
      case False
      have "u \<in> snd ` set migs"
        using e by (intro image_eqI [where x = "(k', u)"]) simp_all
      with False ku have "u \<in> set (sort_pending (pending_of rt migs t0))"
        by (simp add: set_sorted_pending [OF k p])
      then have "Sum u \<in> set (map Sum (sort_pending (pending_of rt migs t0)))"
        by simp
      with ku show ?thesis by simp
    qed
  qed
  with g d ctx mu fl ld have A: "Migrate rt m ctx s1 = (Return ([], None), s1\<lparr>applied := []\<rparr>)"
    by (rule Migrate_mem_nothing_pending)
  have B: "\<forall>migs c. loadMigrations (Sum256 rt) (fs m) (glob m) = Inr migs \<longrightarrow>
            set (sort_pending (pending_of rt migs c)) = {u \<in> snd ` set migs. Sum u \<notin> set c}"
  proof (intro allI impI)
    fix migs' c assume l: "loadMigrations (Sum256 rt) (fs m) (glob m) = Inr migs'"
    have "keyed (Sum256 rt) migs'" using l by (rule keyed_loadMigrations)
    moreover have "mset (range_order rt migs') = mset migs'" using perm by simp
    ultimately show "set (sort_pending (pending_of rt migs' c)) = {u \<in> snd ` set migs'. Sum u \<notin> set c}"
      by (rule set_sorted_pending)
  qed
  from A B show ?thesis by (rule conjI)
qed

theorem Migrate_idempotent_witness:
  "Migrate ex_rt ex_migrator Background ex_state
     = (Return ([''002-first.sql'', ''01-second.sql''], None),
        \<lparr>dbs = \<lparr>flits = Some [''3030322d66697273742e73716c'', ''30312d7365636f6e642e73716c''],
                 user = [''CREATE TABLE t(id INT)'', ''INSERT INTO t VALUES (1)'']\<rparr>,
         applied = [''002-first.sql'', ''01-second.sql''], mu = False\<rparr>) \<and>
   Migrate ex_rt ex_migrator Background
        \<lparr>dbs = \<lparr>flits = Some [''3030322d66697273742e73716c'', ''30312d7365636f6e642e73716c''],
                 user = [''CREATE TABLE t(id INT)'', ''INSERT INTO t VALUES (1)'']\<rparr>,
         applied = [''002-first.sql'', ''01-second.sql''], mu = False\<rparr>
     = (Return ([], None),
        \<lparr>dbs = \<lparr>flits = Some [''3030322d66697273742e73716c'', ''30312d7365636f6e642e73716c''],
                 user = [''CREATE TABLE t(id INT)'', ''INSERT INTO t VALUES (1)'']\<rparr>,
         applied = [], mu = False\<rparr>)"
proof -
  let ?s1 = "\<lparr>dbs = \<lparr>flits = Some [''3030322d66697273742e73716c'', ''30312d7365636f6e642e73716c''],
                 user = [''CREATE TABLE t(id INT)'', ''INSERT INTO t VALUES (1)'']\<rparr>,
         applied = [''002-first.sql'', ''01-second.sql''], mu = False\<rparr>"
  have g: "guard ex_migrator = mutexGuard_Guard" by (simp add: ex_migrator_def New_def)
  have d: "db ex_migrator = mem_driver ex_effect" by (simp add: ex_migrator_def New_def)
  have perm: "\<forall>kvs. mset (range_order ex_rt kvs) = mset kvs" by (simp add: ex_rt_def)
  have first: "Migrate ex_rt ex_migrator Background ex_state
                 = (Return ([''002-first.sql'', ''01-second.sql''], None), ?s1)"
    by code_simp
  from Migrate_idempotent [OF g d perm first, THEN conjunct1]
  have second: "Migrate ex_rt ex_migrator Background ?s1 = (Return ([], None), ?s1\<lparr>applied := []\<rparr>)" .
  from first second show ?thesis by simp
qed

section \<open>The time stamp\<close>

lemma is_digit_digit: "n < 10 \<Longrightarrow> is_digit (digit n)"
  by (simp add: is_digit_def digit_def)

lemma undecimal_snoc: "undecimal (ds @ [c]) = 10 * undecimal ds + (of_char c - 48)"
  by (simp add: undecimal_def)

lemma of_char_digit: "n < 10 \<Longrightarrow> (of_char (digit n) :: nat) - 48 = n"
  by (simp add: digit_def)

lemma decimal_digits: "\<forall>c \<in> set (decimal n). is_digit c"
proof (induction n rule: decimal.induct)
  case (1 n)
  show ?case
  proof (cases "n < 10")
    case True
    then show ?thesis by (subst decimal.simps) (simp add: is_digit_digit)
  next
    case False
    have "n mod 10 < 10" by simp
    then have "is_digit (digit (n mod 10))" by (rule is_digit_digit)
    with False 1 show ?thesis by (subst decimal.simps) simp
  qed
qed

lemma undecimal_decimal: "undecimal (decimal n) = n"
proof (induction n rule: decimal.induct)
  case (1 n)
  show ?case
  proof (cases "n < 10")
    case True
    then show ?thesis by (subst decimal.simps) (simp add: undecimal_def of_char_digit)
  next
    case False
    have "n mod 10 < 10" by simp
    then have d: "(of_char (digit (n mod 10)) :: nat) - 48 = n mod 10" by (rule of_char_digit)
    have "undecimal (decimal n) = undecimal (decimal (n div 10) @ [digit (n mod 10)])"
      using False by (subst decimal.simps) simp
    also have "\<dots> = 10 * (n div 10) + n mod 10"
      using 1 False d by (simp only: undecimal_snoc) simp
    finally show ?thesis by simp
  qed
qed

lemma length_decimal: "n < 10 ^ k \<Longrightarrow> 0 < k \<Longrightarrow> length (decimal n) \<le> k"
proof (induction n arbitrary: k rule: decimal.induct)
  case (1 n)
  show ?case
  proof (cases "n < 10")
    case True
    with 1(3) show ?thesis by (subst decimal.simps) simp
  next
    case False
    then obtain j where k: "k = Suc j" using 1(3) by (cases k) simp_all
    have "j \<noteq> 0" using False 1(2) k by (cases j) simp_all
    then have j: "0 < j" by simp
    have "n div 10 < 10 ^ j" using 1(2) k by (simp add: less_mult_imp_div_less mult.commute)
    from 1(1) [OF False this j] have "length (decimal (n div 10)) \<le> j" .
    then show ?thesis using False k by (subst decimal.simps) simp
  qed
qed

lemma undecimal_zeros: "undecimal (replicate k (CHR ''0'') @ ds) = undecimal ds"
proof -
  have "foldl (\<lambda>a c. 10 * a + (of_char c - 48)) 0 (replicate k (CHR ''0'')) = (0::nat)"
    by (induction k) simp_all
  then show ?thesis by (simp add: undecimal_def)
qed

lemma appendInt_field:
  assumes "n < 10 ^ w" and "0 < w"
  shows "length (appendInt (int n) w) = w \<and> (\<forall>c \<in> set (appendInt (int n) w). is_digit c) \<and>
         undecimal (appendInt (int n) w) = n"
proof -
  have ap: "appendInt (int n) w = replicate (w - length (decimal n)) (CHR ''0'') @ decimal n"
    by (simp add: appendInt_def Let_def)
  have len: "length (decimal n) \<le> w" using assms by (rule length_decimal)
  have z: "is_digit (CHR ''0'')" by (simp add: is_digit_def)
  have "length (appendInt (int n) w) = w" using len by (simp add: ap)
  moreover have "\<forall>c \<in> set (appendInt (int n) w). is_digit c"
    using decimal_digits [of n] z by (auto simp: ap)
  moreover have "undecimal (appendInt (int n) w) = n"
    by (simp only: ap undecimal_zeros undecimal_decimal)
  ultimately show ?thesis by simp
qed

lemma Format_layout:
  assumes "valid_time t"
  shows "length (Format_20060102150405 t) = 14 \<and>
         (\<forall>c \<in> set (Format_20060102150405 t). is_digit c) \<and>
         int (undecimal (take 4 (Format_20060102150405 t))) = Year t \<and>
         undecimal (take 2 (drop 4 (Format_20060102150405 t))) = Month t \<and>
         undecimal (take 2 (drop 6 (Format_20060102150405 t))) = Day t \<and>
         undecimal (take 2 (drop 8 (Format_20060102150405 t))) = Hour t \<and>
         undecimal (take 2 (drop 10 (Format_20060102150405 t))) = Minute t \<and>
         undecimal (drop 12 (Format_20060102150405 t)) = Second t"
proof -
  define y where "y = appendInt (Year t) 4"
  define mo where "mo = appendInt (int (Month t)) 2"
  define d where "d = appendInt (int (Day t)) 2"
  define h where "h = appendInt (int (Hour t)) 2"
  define mi where "mi = appendInt (int (Minute t)) 2"
  define s where "s = appendInt (int (Second t)) 2"
  have F: "Format_20060102150405 t = y @ mo @ d @ h @ mi @ s"
    by (simp add: Format_20060102150405_def y_def mo_def d_def h_def mi_def s_def)
  have yr: "Year t = int (nat (Year t))"
    using assms by (simp add: valid_time_def)
  have "0 \<le> Year t" and "Year t \<le> 9999"
    using assms by (simp_all add: valid_time_def)
  then have "nat (Year t) < 10000" by linarith
  then have yb: "nat (Year t) < 10 ^ 4" by simp
  have "length (appendInt (int (nat (Year t))) 4) = 4 \<and>
        (\<forall>c \<in> set (appendInt (int (nat (Year t))) 4). is_digit c) \<and>
        undecimal (appendInt (int (nat (Year t))) 4) = nat (Year t)"
    using yb by (rule appendInt_field) simp
  then have Y: "length y = 4 \<and> (\<forall>c \<in> set y. is_digit c) \<and> undecimal y = nat (Year t)"
    unfolding y_def using yr by simp
  have MO: "length mo = 2 \<and> (\<forall>c \<in> set mo. is_digit c) \<and> undecimal mo = Month t"
    unfolding mo_def using assms by (intro appendInt_field) (simp_all add: valid_time_def)
  have D: "length d = 2 \<and> (\<forall>c \<in> set d. is_digit c) \<and> undecimal d = Day t"
    unfolding d_def using assms by (intro appendInt_field) (simp_all add: valid_time_def)
  have H: "length h = 2 \<and> (\<forall>c \<in> set h. is_digit c) \<and> undecimal h = Hour t"
    unfolding h_def using assms by (intro appendInt_field) (simp_all add: valid_time_def)
  have MI: "length mi = 2 \<and> (\<forall>c \<in> set mi. is_digit c) \<and> undecimal mi = Minute t"
    unfolding mi_def using assms by (intro appendInt_field) (simp_all add: valid_time_def)
  have S: "length s = 2 \<and> (\<forall>c \<in> set s. is_digit c) \<and> undecimal s = Second t"
    unfolding s_def using assms by (intro appendInt_field) (simp_all add: valid_time_def)
  have "length (y @ mo @ d @ h @ mi @ s) = 14" using Y MO D H MI S by simp
  moreover have "\<forall>c \<in> set (y @ mo @ d @ h @ mi @ s). is_digit c" using Y MO D H MI S by auto
  moreover have "int (undecimal (take 4 (y @ mo @ d @ h @ mi @ s))) = Year t"
    using Y yr by simp
  moreover have "undecimal (take 2 (drop 4 (y @ mo @ d @ h @ mi @ s))) = Month t"
    using Y MO by simp
  moreover have "undecimal (take 2 (drop 6 (y @ mo @ d @ h @ mi @ s))) = Day t"
    using Y MO D by simp
  moreover have "undecimal (take 2 (drop 8 (y @ mo @ d @ h @ mi @ s))) = Hour t"
    using Y MO D H by simp
  moreover have "undecimal (take 2 (drop 10 (y @ mo @ d @ h @ mi @ s))) = Minute t"
    using Y MO D H MI by simp
  moreover have "undecimal (drop 12 (y @ mo @ d @ h @ mi @ s)) = Second t"
    using Y MO D H MI S by simp
  ultimately show ?thesis unfolding F by (intro conjI)
qed

section \<open>The subcommand new\<close>

lemma main_usage:
  assumes "length Args \<noteq> 3 \<or> Args ! 1 \<noteq> ''new''"
  shows "main env Args p = (2, p\<lparr>stderr := stderr p @ ''usage: flit new MIGRATION-DIR'' @ newline\<rparr>)"
  using assms by (auto simp: main_def run_def)

lemma main_created:
  assumes "length Args = 3" and "Args ! 1 = ''new''"
    and "Stat env (Args ! 2) (files p) = Inr True"
    and "WriteFile env (Join env (Args ! 2) (Format_20060102150405 (Now env) @ ''-new-migration.sql''))
           [] (files p) = (None, f1)"
    and "stdout_err env = None"
  shows "main env Args p
           = (0, p\<lparr>files := f1,
                   stdout := stdout p @
                     Join env (Args ! 2) (Format_20060102150405 (Now env) @ ''-new-migration.sql'')
                     @ newline\<rparr>)"
  using assms by (simp add: main_def run_def Let_def)

lemma main_failed:
  assumes "length Args = 3" and "Args ! 1 = ''new''"
    and "(\<exists>err. Stat env (Args ! 2) (files p) = Inl err) \<or>
         Stat env (Args ! 2) (files p) = Inr False \<or>
         (\<exists>err f1. WriteFile env (Join env (Args ! 2)
                      (Format_20060102150405 (Now env) @ ''-new-migration.sql'')) [] (files p)
                     = (Some err, f1)) \<or>
         (\<exists>err. stdout_err env = Some err)"
  shows "fst (main env Args p) = 1"
proof -
  obtain r p1 where r: "run env Args p = (r, p1)" by (cases "run env Args p")
  have "\<exists>err. r = Returned (Some err)"
    using assms r
    by (auto simp: run_def Let_def split: sum.splits prod.splits option.splits if_splits)
  then show ?thesis using r by (auto simp: main_def)
qed

text \<open>
  C9. \<^verbatim>\<open>os.Args\<close> holds the program name and then the arguments. Unless the arguments
  are exactly \<^verbatim>\<open>new\<close> and one more, the tool writes the usage line to standard error
  and exits with status 2, having done nothing else. With the right arguments, a failed
  \<^verbatim>\<open>os.Stat\<close>, a path that is no directory, a failed write of the file or of the
  output line all end in status 1. When the directory exists and both writes succeed, the
  tool writes an empty file whose name is the time stamp followed by
  \<^verbatim>\<open>-new-migration.sql\<close>, joined to the directory, prints that path and a newline and
  exits with status 0; for a time with a year of at most four digits the stamp is fourteen
  decimal digits: four of the year, then two each of month, day, hour, minute and second.
\<close>

theorem new_subcommand:
  "(length Args \<noteq> 3 \<or> Args ! 1 \<noteq> ''new'' \<longrightarrow>
      main env Args p
        = (2, p\<lparr>stderr := stderr p @ ''usage: flit new MIGRATION-DIR'' @ newline\<rparr>)) \<and>
   (length Args = 3 \<and> Args ! 1 = ''new'' \<and>
      ((\<exists>err. Stat env (Args ! 2) (files p) = Inl err) \<or>
       Stat env (Args ! 2) (files p) = Inr False \<or>
       (\<exists>err f1. WriteFile env (Join env (Args ! 2)
                    (Format_20060102150405 (Now env) @ ''-new-migration.sql'')) [] (files p)
                   = (Some err, f1)) \<or>
       (\<exists>err. stdout_err env = Some err)) \<longrightarrow>
      fst (main env Args p) = 1) \<and>
   (length Args = 3 \<and> Args ! 1 = ''new'' \<and>
      Stat env (Args ! 2) (files p) = Inr True \<and>
      WriteFile env (Join env (Args ! 2) (Format_20060102150405 (Now env) @ ''-new-migration.sql''))
        [] (files p) = (None, f1) \<and>
      stdout_err env = None \<longrightarrow>
      main env Args p
        = (0, p\<lparr>files := f1,
                stdout := stdout p @
                  Join env (Args ! 2) (Format_20060102150405 (Now env) @ ''-new-migration.sql'')
                  @ newline\<rparr>)) \<and>
   (valid_time (Now env) \<longrightarrow>
      length (Format_20060102150405 (Now env)) = 14 \<and>
      (\<forall>c \<in> set (Format_20060102150405 (Now env)). is_digit c) \<and>
      int (undecimal (take 4 (Format_20060102150405 (Now env)))) = Year (Now env) \<and>
      undecimal (take 2 (drop 4 (Format_20060102150405 (Now env)))) = Month (Now env) \<and>
      undecimal (take 2 (drop 6 (Format_20060102150405 (Now env)))) = Day (Now env) \<and>
      undecimal (take 2 (drop 8 (Format_20060102150405 (Now env)))) = Hour (Now env) \<and>
      undecimal (take 2 (drop 10 (Format_20060102150405 (Now env)))) = Minute (Now env) \<and>
      undecimal (drop 12 (Format_20060102150405 (Now env))) = Second (Now env))"
proof (intro conjI impI)
  assume "length Args \<noteq> 3 \<or> Args ! 1 \<noteq> ''new''"
  then show "main env Args p
        = (2, p\<lparr>stderr := stderr p @ ''usage: flit new MIGRATION-DIR'' @ newline\<rparr>)"
    by (rule main_usage)
next
  assume "length Args = 3 \<and> Args ! 1 = ''new'' \<and>
      ((\<exists>err. Stat env (Args ! 2) (files p) = Inl err) \<or>
       Stat env (Args ! 2) (files p) = Inr False \<or>
       (\<exists>err f1. WriteFile env (Join env (Args ! 2)
                    (Format_20060102150405 (Now env) @ ''-new-migration.sql'')) [] (files p)
                   = (Some err, f1)) \<or>
       (\<exists>err. stdout_err env = Some err))"
  then show "fst (main env Args p) = 1"
    using main_failed [of Args env p] by simp
next
  assume "length Args = 3 \<and> Args ! 1 = ''new'' \<and>
      Stat env (Args ! 2) (files p) = Inr True \<and>
      WriteFile env (Join env (Args ! 2) (Format_20060102150405 (Now env) @ ''-new-migration.sql''))
        [] (files p) = (None, f1) \<and>
      stdout_err env = None"
  then show "main env Args p
        = (0, p\<lparr>files := f1,
                stdout := stdout p @
                  Join env (Args ! 2) (Format_20060102150405 (Now env) @ ''-new-migration.sql'')
                  @ newline\<rparr>)"
    using main_created [of Args env p f1] by simp
next
  assume v: "valid_time (Now env)"
  note L = Format_layout [OF v]
  show "length (Format_20060102150405 (Now env)) = 14" using L by simp
  show "\<forall>c \<in> set (Format_20060102150405 (Now env)). is_digit c" using L by simp
  show "int (undecimal (take 4 (Format_20060102150405 (Now env)))) = Year (Now env)" using L by simp
  show "undecimal (take 2 (drop 4 (Format_20060102150405 (Now env)))) = Month (Now env)" using L by simp
  show "undecimal (take 2 (drop 6 (Format_20060102150405 (Now env)))) = Day (Now env)" using L by simp
  show "undecimal (take 2 (drop 8 (Format_20060102150405 (Now env)))) = Hour (Now env)" using L by simp
  show "undecimal (take 2 (drop 10 (Format_20060102150405 (Now env)))) = Minute (Now env)" using L by simp
  show "undecimal (drop 12 (Format_20060102150405 (Now env))) = Second (Now env)" using L by simp
qed

theorem new_subcommand_witness:
  "main ex_os [''flit'', ''new''] ex_process
     = (2, \<lparr>files = [], stdout = [], stderr = ''usage: flit new MIGRATION-DIR'' @ newline\<rparr>) \<and>
   main ex_os [''flit'', ''old'', ''/srv/migrations''] ex_process
     = (2, \<lparr>files = [], stdout = [], stderr = ''usage: flit new MIGRATION-DIR'' @ newline\<rparr>) \<and>
   fst (main ex_os [''flit'', ''new'', ''/nowhere''] ex_process) = 1 \<and>
   fst (main ex_os [''flit'', ''new'', ''/etc/hosts''] ex_process) = 1 \<and>
   main ex_os [''flit'', ''new'', ''/srv/migrations''] ex_process
     = (0, \<lparr>files = [(''/srv/migrations/20260309005907-new-migration.sql'', [])],
            stdout = ''/srv/migrations/20260309005907-new-migration.sql'' @ newline,
            stderr = []\<rparr>) \<and>
   valid_time (Now ex_os) \<and>
   Format_20060102150405 (Now ex_os) = ''20260309005907'' \<and>
   length (Format_20060102150405 (Now ex_os)) = 14 \<and>
   undecimal (take 2 (drop 4 (Format_20060102150405 (Now ex_os)))) = 3"
proof -
  have fm: "Format_20060102150405 (Now ex_os) = ''20260309005907''" by code_simp
  have vt: "valid_time (Now ex_os)" by (simp add: valid_time_def ex_os_def)
  note T1 = new_subcommand [of "[''flit'', ''new'']" ex_os ex_process, THEN conjunct1]
  have w1: "main ex_os [''flit'', ''new''] ex_process
     = (2, \<lparr>files = [], stdout = [], stderr = ''usage: flit new MIGRATION-DIR'' @ newline\<rparr>)"
    using T1 by (simp add: ex_process_def)
  note T2 = new_subcommand [of "[''flit'', ''old'', ''/srv/migrations'']" ex_os ex_process, THEN conjunct1]
  have w2: "main ex_os [''flit'', ''old'', ''/srv/migrations''] ex_process
     = (2, \<lparr>files = [], stdout = [], stderr = ''usage: flit new MIGRATION-DIR'' @ newline\<rparr>)"
    using T2 by (simp add: ex_process_def)
  note T3 = new_subcommand [of "[''flit'', ''new'', ''/nowhere'']" ex_os ex_process,
      THEN conjunct2, THEN conjunct1]
  have w3: "fst (main ex_os [''flit'', ''new'', ''/nowhere''] ex_process) = 1"
    using T3 by (simp add: ex_os_def)
  note T4 = new_subcommand [of "[''flit'', ''new'', ''/etc/hosts'']" ex_os ex_process,
      THEN conjunct2, THEN conjunct1]
  have w4: "fst (main ex_os [''flit'', ''new'', ''/etc/hosts''] ex_process) = 1"
    using T4 by (simp add: ex_os_def)
  note T5 = new_subcommand [of "[''flit'', ''new'', ''/srv/migrations'']" ex_os ex_process
      "[(''/srv/migrations/20260309005907-new-migration.sql'', [])]",
      THEN conjunct2, THEN conjunct2, THEN conjunct1]
  have jn: "Join ex_os ''/srv/migrations'' (''20260309005907'' @ ''-new-migration.sql'')
              = ''/srv/migrations/20260309005907-new-migration.sql''"
    by (simp add: ex_os_def)
  have w5: "main ex_os [''flit'', ''new'', ''/srv/migrations''] ex_process
     = (0, \<lparr>files = [(''/srv/migrations/20260309005907-new-migration.sql'', [])],
            stdout = ''/srv/migrations/20260309005907-new-migration.sql'' @ newline,
            stderr = []\<rparr>)"
    using T5 unfolding fm by (simp add: ex_os_def ex_process_def)
  note T6 = new_subcommand [of _ ex_os, THEN conjunct2, THEN conjunct2, THEN conjunct2,
      rule_format, OF vt]
  have w6: "length (Format_20060102150405 (Now ex_os)) = 14"
    using T6 by (rule conjunct1)
  have "undecimal (take 2 (drop 4 (Format_20060102150405 (Now ex_os)))) = Month (Now ex_os)"
    using T6 by (elim conjE)
  then have w7: "undecimal (take 2 (drop 4 (Format_20060102150405 (Now ex_os)))) = 3"
    by (simp add: ex_os_def)
  from w1 w2 w3 w4 w5 vt fm w6 w7 show ?thesis by (intro conjI)
qed

section \<open>Guards and cancellation\<close>

lemma GuardMySQL_lock_fails:
  assumes "ExecContext conn ctx sql_get_lock [] (dbs s) = (Some err, d1)"
  shows "GuardMySQL ctx conn f s = (Return (Some err), s\<lparr>dbs := d1\<rparr>)"
  using assms by (simp add: GuardMySQL_def)

lemma mutexGuard_locked:
  assumes "mu s"
  shows "mutexGuard_Guard ctx conn f s = (Blocked, s)"
  using assms by (simp add: mutexGuard_Guard_def)

lemma mutexGuard_create_fails:
  assumes "mu s = False" and "ExecContext conn ctx sql_create [] (dbs s) = (Some err, d1)"
  shows "mutexGuard_Guard ctx conn (critical_section rt migs conn) s
           = (Return (Some (Errorf_w ''create flits table'' err)), s\<lparr>dbs := d1\<rparr>)"
proof -
  have "critical_section rt migs conn ctx (s\<lparr>mu := True\<rparr>)
          = (Return (Some (Errorf_w ''create flits table'' err)), s\<lparr>mu := True, dbs := d1\<rparr>)"
    using assms(2) by (simp add: critical_section_def)
  moreover have "s\<lparr>mu := True, dbs := d1, mu := False\<rparr> = s\<lparr>dbs := d1\<rparr>"
    using assms(1) by (cases s) simp
  ultimately show ?thesis using assms(1) by (simp add: mutexGuard_Guard_def)
qed

section \<open>Further properties of the two guards\<close>

lemma GuardMySQL_releases_on_panic:
  assumes "ExecContext conn ctx sql_get_lock [] (dbs s) = (None, d1)"
    and "f ctx (s\<lparr>dbs := d1\<rparr>) = (Panic p, s2)"
    and "ExecContext conn ctx sql_release_lock [] (dbs s2) = (re, d3)"
  shows "GuardMySQL ctx conn f s = (Panic p, s2\<lparr>dbs := d3\<rparr>)"
  using assms by (simp add: GuardMySQL_def)

lemma Migrate_scan_failure_returned:
  assumes g: "guard m = mutexGuard_Guard" and unlocked: "mu s = False"
    and ld: "loadMigrations (Sum256 rt) (fs m) (glob m) = Inr migs"
    and cn: "Conn (db m) ctx (dbs s) = (None, d1)"
    and cr: "ExecContext (db m) ctx sql_create [] d1 = (None, d2)"
    and qu: "QueryContext (db m) ctx sql_select d2 = (Inr rs, d3)"
    and sc: "scans rs = map Inr pre @ Inl err # rest"
  shows "Migrate rt m ctx s
           = (Return ([], Some err), \<lparr>dbs = Close (db m) d3, applied = [], mu = False\<rparr>)"
proof -
  have gc: "getCompletedMigrations (db m) ctx d2 = (Return ([], Some err), d3)"
    using qu sc by (rule getCompletedMigrations_scan_fails)
  have cs: "critical_section rt migs (db m) ctx \<lparr>dbs = d1, applied = [], mu = True\<rparr>
              = (Return (Some err), \<lparr>dbs = d3, applied = [], mu = True\<rparr>)"
    by (simp add: critical_section_def cr gc)
  have st: "s\<lparr>applied := [], dbs := d1, mu := True\<rparr> = \<lparr>dbs = d1, applied = [], mu = True\<rparr>"
    by (cases s) simp
  show ?thesis
    using unlocked by (simp add: Migrate_def ld cn g mutexGuard_Guard_def st cs)
qed

lemma Migrate_query_failure_panics:
  assumes g: "guard m = mutexGuard_Guard" and unlocked: "mu s = False"
    and ld: "loadMigrations (Sum256 rt) (fs m) (glob m) = Inr migs"
    and cn: "Conn (db m) ctx (dbs s) = (None, d1)"
    and cr: "ExecContext (db m) ctx sql_create [] d1 = (None, d2)"
    and qu: "QueryContext (db m) ctx sql_select d2 = (Inl err, d3)"
  shows "Migrate rt m ctx s = (Panic err, \<lparr>dbs = Close (db m) d3, applied = [], mu = False\<rparr>)"
proof -
  have gc: "getCompletedMigrations (db m) ctx d2 = (Panic err, d3)"
    using qu by (rule getCompletedMigrations_query_fails)
  have cs: "critical_section rt migs (db m) ctx \<lparr>dbs = d1, applied = [], mu = True\<rparr>
              = (Panic err, \<lparr>dbs = d3, applied = [], mu = True\<rparr>)"
    by (simp add: critical_section_def cr gc)
  have st: "s\<lparr>applied := [], dbs := d1, mu := True\<rparr> = \<lparr>dbs = d1, applied = [], mu = True\<rparr>"
    by (cases s) simp
  show ?thesis
    using unlocked by (simp add: Migrate_def ld cn g mutexGuard_Guard_def st cs)
qed

lemma Migrate_fail_stop_GuardMySQL:
  assumes g: "guard m = GuardMySQL"
    and ld: "loadMigrations (Sum256 rt) (fs m) (glob m) = Inr migs"
    and cn: "Conn (db m) ctx (dbs s) = (None, d0)"
    and lk: "ExecContext (db m) ctx sql_get_lock [] d0 = (None, d1)"
    and cr: "ExecContext (db m) ctx sql_create [] d1 = (None, d2)"
    and gc: "getCompletedMigrations (db m) ctx d2 = (Return (completed, None), d3)"
    and pd: "sort_pending (pending_of rt migs completed) = pre @ u # post"
    and ok: "apply_loop (db m) ctx pre \<lparr>dbs = d3, applied = [], mu = mu s\<rparr> = (None, s1)"
    and fl: "ExecContext (db m) ctx (SQL u) [] (dbs s1) = (Some cause, d4) \<and>
               e = Errorf_w (''apply '' @ Name u) cause \<or>
             (\<exists>d. ExecContext (db m) ctx (SQL u) [] (dbs s1) = (None, d) \<and>
                  ExecContext (db m) ctx sql_insert [Sum u] d = (Some cause, d4)) \<and>
               e = Errorf_w (''record '' @ Name u) cause"
    and rl: "ExecContext (db m) ctx sql_release_lock [] d4 = (re, d5)"
  shows "Migrate rt m ctx s
           = (Return (map Name pre, errors_Join [Some e, re]),
              \<lparr>dbs = Close (db m) d5, applied = map Name pre, mu = mu s\<rparr>)"
proof -
  let ?S0 = "\<lparr>dbs = d3, applied = [], mu = mu s\<rparr>"
  have lp: "apply_loop (db m) ctx (pre @ u # post) ?S0
              = (Some e, \<lparr>dbs = d4, applied = applied ?S0 @ map Name pre, mu = mu ?S0\<rparr>)"
    using ok fl by (rule apply_loop_fails_at)
  have cs: "critical_section rt migs (db m) ctx \<lparr>dbs = d1, applied = [], mu = mu s\<rparr>
              = (Return (Some e), \<lparr>dbs = d4, applied = map Name pre, mu = mu s\<rparr>)"
    using lp by (simp add: critical_section_def cr gc pd)
  have st: "s\<lparr>applied := [], dbs := d1\<rparr> = \<lparr>dbs = d1, applied = [], mu = mu s\<rparr>"
    by (cases s) simp
  have gd: "GuardMySQL ctx (db m) (critical_section rt migs (db m)) (s\<lparr>applied := [], dbs := d0\<rparr>)
              = (Return (errors_Join [Some e, re]), \<lparr>dbs = d5, applied = map Name pre, mu = mu s\<rparr>)"
    by (simp add: GuardMySQL_def lk st cs rl)
  show ?thesis
    by (simp add: Migrate_def ld cn g gd)
qed

section \<open>The calls of a run\<close>

lemma logging_Exec:
  "ExecContext (logging conn) ctx q args D = (e, D') \<Longrightarrow> snd D' = snd D @ [ExecCall ctx q args]"
  by (cases D) (auto simp: logging_def split: prod.splits)

lemma logging_Query:
  "QueryContext (logging conn) ctx q D = (r, D') \<Longrightarrow> snd D' = snd D @ [QueryCall ctx q]"
  by (cases D) (auto simp: logging_def split: prod.splits)

lemma logging_Conn:
  "Conn (logging conn) ctx D = (e, D') \<Longrightarrow> snd D' = snd D @ [ConnCall ctx]"
  by (cases D) (auto simp: logging_def split: prod.splits)

lemma logging_Close: "snd (Close (logging conn) D) = snd D @ [CloseCall]"
  by (cases D) (simp add: logging_def)

lemma logging_getCompleted:
  assumes "getCompletedMigrations (logging conn) ctx D = (r, D')"
  shows "snd D' = snd D @ [QueryCall ctx sql_select]"
proof -
  obtain q D1 where q: "QueryContext (logging conn) ctx sql_select D = (q, D1)"
    by (cases "QueryContext (logging conn) ctx sql_select D")
  from assms q have "D' = D1"
    by (auto simp: getCompletedMigrations_def split: sum.splits option.splits)
  with logging_Query [OF q] show ?thesis by simp
qed

lemma apply_loop_logged:
  "apply_loop (logging conn) ctx ms S = (e, S') \<Longrightarrow>
     \<exists>k tail.
       applied S' = applied S @ map Name (take k ms) \<and> mu S' = mu S \<and>
       snd (dbs S') = snd (dbs S) @ concat (map (unit_calls ctx) (take k ms)) @ tail \<and>
       (e = None \<and> k = length ms \<and> tail = [] \<or>
        (\<exists>c. e = Some c) \<and> k < length ms \<and>
          (tail = [ExecCall ctx (SQL (ms ! k)) []] \<or> tail = unit_calls ctx (ms ! k)))"
proof (induction ms arbitrary: S)
  case Nil
  then have "S' = S" "e = None" by simp_all
  then show ?case by simp
next
  case (Cons u ms)
  obtain r1 D1 where e1: "ExecContext (logging conn) ctx (SQL u) [] (dbs S) = (r1, D1)"
    by (cases "ExecContext (logging conn) ctx (SQL u) [] (dbs S)")
  have l1: "snd D1 = snd (dbs S) @ [ExecCall ctx (SQL u) []]" using e1 by (rule logging_Exec)
  show ?case
  proof (cases r1)
    case (Some c)
    with Cons.prems e1 have S': "S' = S\<lparr>dbs := D1\<rparr>" and e: "e = Some (Errorf_w (''apply '' @ Name u) c)"
      by simp_all
    have "applied S' = applied S @ map Name (take 0 (u # ms)) \<and> mu S' = mu S \<and>
       snd (dbs S') = snd (dbs S) @ concat (map (unit_calls ctx) (take 0 (u # ms))) @ [ExecCall ctx (SQL u) []] \<and>
       (\<exists>c. e = Some c) \<and> 0 < length (u # ms) \<and>
       [ExecCall ctx (SQL u) []] = [ExecCall ctx (SQL ((u # ms) ! 0)) []]"
      using S' e l1 by simp
    then show ?thesis by blast
  next
    case None
    obtain r2 D2 where e2: "ExecContext (logging conn) ctx sql_insert [Sum u] D1 = (r2, D2)"
      by (cases "ExecContext (logging conn) ctx sql_insert [Sum u] D1")
    have l2: "snd D2 = snd (dbs S) @ unit_calls ctx u"
      using logging_Exec [OF e2] l1 by (simp add: unit_calls_def)
    show ?thesis
    proof (cases r2)
      case (Some c)
      with Cons.prems e1 None e2 have S': "S' = S\<lparr>dbs := D2\<rparr>"
        and e: "e = Some (Errorf_w (''record '' @ Name u) c)"
        by simp_all
      have "applied S' = applied S @ map Name (take 0 (u # ms)) \<and> mu S' = mu S \<and>
       snd (dbs S') = snd (dbs S) @ concat (map (unit_calls ctx) (take 0 (u # ms))) @ unit_calls ctx u \<and>
       (\<exists>c. e = Some c) \<and> 0 < length (u # ms) \<and>
       unit_calls ctx u = unit_calls ctx ((u # ms) ! 0)"
        using S' e l2 by simp
      then show ?thesis by blast
    next
      case None2: None
      let ?S1 = "S\<lparr>dbs := D2, applied := applied S @ [Name u]\<rparr>"
      from Cons.prems e1 None e2 None2
      have rest: "apply_loop (logging conn) ctx ms ?S1 = (e, S')" by simp
      from Cons.IH [OF rest] obtain k tail where
        a: "applied S' = applied ?S1 @ map Name (take k ms)" and m: "mu S' = mu ?S1" and
        l: "snd (dbs S') = snd (dbs ?S1) @ concat (map (unit_calls ctx) (take k ms)) @ tail" and
        t: "e = None \<and> k = length ms \<and> tail = [] \<or>
            (\<exists>c. e = Some c) \<and> k < length ms \<and>
              (tail = [ExecCall ctx (SQL (ms ! k)) []] \<or> tail = unit_calls ctx (ms ! k))"
        by blast
      have "applied S' = applied S @ map Name (take (Suc k) (u # ms)) \<and> mu S' = mu S \<and>
        snd (dbs S') = snd (dbs S) @ concat (map (unit_calls ctx) (take (Suc k) (u # ms))) @ tail \<and>
        (e = None \<and> Suc k = length (u # ms) \<and> tail = [] \<or>
          (\<exists>c. e = Some c) \<and> Suc k < length (u # ms) \<and>
          (tail = [ExecCall ctx (SQL ((u # ms) ! Suc k)) []] \<or> tail = unit_calls ctx ((u # ms) ! Suc k)))"
        using a m l t l2 by simp
      then show ?thesis by blast
    qed
  qed
qed

lemma sort_pending_strict:
  assumes "distinct (map Name xs)"
  shows "sorted_wrt (\<lambda>a b. strings_Compare (Name a) (Name b) < 0) (sort_pending xs)"
proof -
  have "mset (map Name (sort_pending xs)) = mset (map Name xs)"
    by (simp add: mset_sort_pending)
  then have "distinct (map Name (sort_pending xs))"
    using assms mset_eq_imp_distinct_iff by blast
  with sorted_sort_pending [of xs] have "sorted_wrt (<) (map Name (sort_pending xs))"
    by (simp add: strict_sorted_iff)
  then show ?thesis
    by (simp add: sorted_wrt_map strings_Compare_less)
qed

lemma Migrate_trace_default:
  assumes g: "guard m = mutexGuard_Guard" and unlocked: "mu s = False"
    and d: "db m = logging conn"
    and ld: "loadMigrations (Sum256 rt) (fs m) (glob m) = Inr migs"
    and cn: "Conn (db m) ctx (dbs s) = (None, D1)"
    and cr: "ExecContext (db m) ctx sql_create [] D1 = (None, D2)"
    and gc: "getCompletedMigrations (db m) ctx D2 = (Return (completed, None), D3)"
    and P: "P = sort_pending (pending_of rt migs completed)"
  shows "\<exists>k tail e s'.
           Migrate rt m ctx s = (Return (map Name (take k P), e), s') \<and>
           snd (dbs s') = snd D3 @ concat (map (unit_calls ctx) (take k P)) @ tail @ [CloseCall] \<and>
           (e = None \<and> k = length P \<and> tail = [] \<or>
            (\<exists>c. e = Some c) \<and> k < length P \<and>
              (tail = [ExecCall ctx (SQL (P ! k)) []] \<or> tail = unit_calls ctx (P ! k)))"
proof -
  let ?S0 = "\<lparr>dbs = D3, applied = [], mu = True\<rparr>"
  obtain e S3 where lp: "apply_loop (db m) ctx P ?S0 = (e, S3)"
    by (cases "apply_loop (db m) ctx P ?S0")
  from lp d have "apply_loop (logging conn) ctx P ?S0 = (e, S3)" by simp
  from apply_loop_logged [OF this] obtain k tail where
    a: "applied S3 = map Name (take k P)" and
    l: "snd (dbs S3) = snd D3 @ concat (map (unit_calls ctx) (take k P)) @ tail" and
    t: "e = None \<and> k = length P \<and> tail = [] \<or>
            (\<exists>c. e = Some c) \<and> k < length P \<and>
              (tail = [ExecCall ctx (SQL (P ! k)) []] \<or> tail = unit_calls ctx (P ! k))"
    by auto
  have cs: "critical_section rt migs (db m) ctx \<lparr>dbs = D1, applied = [], mu = True\<rparr> = (Return e, S3)"
    using lp by (simp add: critical_section_def cr gc P [symmetric])
  have st: "s\<lparr>applied := [], dbs := D1, mu := True\<rparr> = \<lparr>dbs = D1, applied = [], mu = True\<rparr>"
    by (cases s) simp
  have M: "Migrate rt m ctx s
             = (Return (map Name (take k P), e), S3\<lparr>mu := False, dbs := Close (db m) (dbs S3)\<rparr>)"
    using unlocked by (simp add: Migrate_def ld cn g mutexGuard_Guard_def st cs a)
  have L: "snd (dbs (S3\<lparr>mu := False, dbs := Close (db m) (dbs S3)\<rparr>))
             = snd D3 @ concat (map (unit_calls ctx) (take k P)) @ tail @ [CloseCall]"
    using l by (simp add: d logging_Close)
  from M L t show ?thesis by blast
qed

lemma Migrate_trace_GuardMySQL:
  assumes g: "guard m = GuardMySQL"
    and d: "db m = logging conn"
    and ld: "loadMigrations (Sum256 rt) (fs m) (glob m) = Inr migs"
    and cn: "Conn (db m) ctx (dbs s) = (None, D0)"
    and lk: "ExecContext (db m) ctx sql_get_lock [] D0 = (None, D1)"
    and cr: "ExecContext (db m) ctx sql_create [] D1 = (None, D2)"
    and gc: "getCompletedMigrations (db m) ctx D2 = (Return (completed, None), D3)"
    and P: "P = sort_pending (pending_of rt migs completed)"
  shows "\<exists>k tail e re s'.
           Migrate rt m ctx s = (Return (map Name (take k P), errors_Join [e, re]), s') \<and>
           snd (dbs s') = snd D3 @ concat (map (unit_calls ctx) (take k P)) @ tail
                            @ [ExecCall ctx sql_release_lock []] @ [CloseCall] \<and>
           (e = None \<and> k = length P \<and> tail = [] \<or>
            (\<exists>c. e = Some c) \<and> k < length P \<and>
              (tail = [ExecCall ctx (SQL (P ! k)) []] \<or> tail = unit_calls ctx (P ! k)))"
proof -
  let ?S0 = "\<lparr>dbs = D3, applied = [], mu = mu s\<rparr>"
  obtain e S3 where lp: "apply_loop (db m) ctx P ?S0 = (e, S3)"
    by (cases "apply_loop (db m) ctx P ?S0")
  from lp d have "apply_loop (logging conn) ctx P ?S0 = (e, S3)" by simp
  from apply_loop_logged [OF this] obtain k tail where
    a: "applied S3 = map Name (take k P)" and
    l: "snd (dbs S3) = snd D3 @ concat (map (unit_calls ctx) (take k P)) @ tail" and
    t: "e = None \<and> k = length P \<and> tail = [] \<or>
            (\<exists>c. e = Some c) \<and> k < length P \<and>
              (tail = [ExecCall ctx (SQL (P ! k)) []] \<or> tail = unit_calls ctx (P ! k))"
    by auto
  have cs: "critical_section rt migs (db m) ctx \<lparr>dbs = D1, applied = [], mu = mu s\<rparr> = (Return e, S3)"
    using lp by (simp add: critical_section_def cr gc P [symmetric])
  have st: "s\<lparr>applied := [], dbs := D1\<rparr> = \<lparr>dbs = D1, applied = [], mu = mu s\<rparr>"
    by (cases s) simp
  obtain re D5 where rl: "ExecContext (db m) ctx sql_release_lock [] (dbs S3) = (re, D5)"
    by (cases "ExecContext (db m) ctx sql_release_lock [] (dbs S3)")
  from rl d have "ExecContext (logging conn) ctx sql_release_lock [] (dbs S3) = (re, D5)" by simp
  then have l5: "snd D5 = snd (dbs S3) @ [ExecCall ctx sql_release_lock []]" by (rule logging_Exec)
  have gd: "GuardMySQL ctx (db m) (critical_section rt migs (db m)) (s\<lparr>applied := [], dbs := D0\<rparr>)
              = (Return (errors_Join [e, re]), S3\<lparr>dbs := D5\<rparr>)"
    by (simp add: GuardMySQL_def lk st cs rl)
  have M: "Migrate rt m ctx s
             = (Return (map Name (take k P), errors_Join [e, re]), S3\<lparr>dbs := Close (db m) D5\<rparr>)"
    by (simp add: Migrate_def ld cn g gd a)
  have L: "snd (dbs (S3\<lparr>dbs := Close (db m) D5\<rparr>))
             = snd D3 @ concat (map (unit_calls ctx) (take k P)) @ tail
                 @ [ExecCall ctx sql_release_lock []] @ [CloseCall]"
    using l l5 by (simp add: d logging_Close)
  from M L t show ?thesis by blast
qed

section \<open>The context of every call\<close>

lemma made_with_refl: "made_with ctx l l"
  by (simp add: made_with_def)

lemma made_with_trans:
  assumes "made_with ctx l1 l2" and "made_with ctx l2 l3"
  shows "made_with ctx l1 l3"
proof -
  from assms(1) obtain a where a: "l2 = l1 @ a" "\<forall>c \<in> set a. call_ctx c = Some ctx \<or> c = CloseCall"
    unfolding made_with_def by auto
  from assms(2) obtain b where b: "l3 = l2 @ b" "\<forall>c \<in> set b. call_ctx c = Some ctx \<or> c = CloseCall"
    unfolding made_with_def by auto
  have "l3 = l1 @ (a @ b)" using a(1) b(1) by simp
  moreover have "\<forall>c \<in> set (a @ b). call_ctx c = Some ctx \<or> c = CloseCall"
    using a(2) b(2) by auto
  ultimately show ?thesis unfolding made_with_def by blast
qed

lemma made_with_step:
  assumes "l' = l @ [c]" and "call_ctx c = Some ctx \<or> c = CloseCall"
  shows "made_with ctx l l'"
  unfolding made_with_def using assms by auto

lemma made_with_Exec:
  assumes "ExecContext (logging conn) ctx q args D = (e, D')"
  shows "made_with ctx (snd D) (snd D')"
  using logging_Exec [OF assms] by (rule made_with_step) simp

lemma made_with_Conn:
  assumes "Conn (logging conn) ctx D = (e, D')"
  shows "made_with ctx (snd D) (snd D')"
  using logging_Conn [OF assms] by (rule made_with_step) simp

lemma made_with_Close: "made_with ctx (snd D) (snd (Close (logging conn) D))"
  using logging_Close [of conn D] by (rule made_with_step) simp

lemma made_with_getCompleted:
  assumes "getCompletedMigrations (logging conn) ctx D = (r, D')"
  shows "made_with ctx (snd D) (snd D')"
  using logging_getCompleted [OF assms] by (rule made_with_step) simp

lemma made_with_apply_loop:
  "apply_loop (logging conn) ctx ms S = (e, S') \<Longrightarrow> made_with ctx (snd (dbs S)) (snd (dbs S'))"
proof (induction ms arbitrary: S)
  case Nil
  then show ?case by (simp add: made_with_refl)
next
  case (Cons u ms)
  obtain r1 D1 where e1: "ExecContext (logging conn) ctx (SQL u) [] (dbs S) = (r1, D1)"
    by (cases "ExecContext (logging conn) ctx (SQL u) [] (dbs S)")
  have m1: "made_with ctx (snd (dbs S)) (snd D1)" using e1 by (rule made_with_Exec)
  show ?case
  proof (cases r1)
    case (Some c)
    with Cons.prems e1 have "S' = S\<lparr>dbs := D1\<rparr>" by simp
    with m1 show ?thesis by simp
  next
    case None
    obtain r2 D2 where e2: "ExecContext (logging conn) ctx sql_insert [Sum u] D1 = (r2, D2)"
      by (cases "ExecContext (logging conn) ctx sql_insert [Sum u] D1")
    have m2: "made_with ctx (snd (dbs S)) (snd D2)"
      using m1 made_with_Exec [OF e2] by (rule made_with_trans)
    show ?thesis
    proof (cases r2)
      case (Some c)
      with Cons.prems e1 None e2 have "S' = S\<lparr>dbs := D2\<rparr>" by simp
      with m2 show ?thesis by simp
    next
      case None2: None
      let ?S1 = "S\<lparr>dbs := D2, applied := applied S @ [Name u]\<rparr>"
      from Cons.prems e1 None e2 None2
      have rest: "apply_loop (logging conn) ctx ms ?S1 = (e, S')" by simp
      from Cons.IH [OF rest] have "made_with ctx (snd D2) (snd (dbs S'))" by simp
      with m2 show ?thesis by (rule made_with_trans)
    qed
  qed
qed

lemma made_with_critical_section:
  assumes "critical_section rt migs (logging conn) ctx S = (r, S')"
  shows "made_with ctx (snd (dbs S)) (snd (dbs S'))"
proof -
  obtain r1 D1 where e1: "ExecContext (logging conn) ctx sql_create [] (dbs S) = (r1, D1)"
    by (cases "ExecContext (logging conn) ctx sql_create [] (dbs S)")
  have m1: "made_with ctx (snd (dbs S)) (snd D1)" using e1 by (rule made_with_Exec)
  show ?thesis
  proof (cases r1)
    case (Some c)
    with assms e1 have "S' = S\<lparr>dbs := D1\<rparr>" by (simp add: critical_section_def)
    with m1 show ?thesis by simp
  next
    case None
    obtain g D2 where e2: "getCompletedMigrations (logging conn) ctx D1 = (g, D2)"
      by (cases "getCompletedMigrations (logging conn) ctx D1")
    have m2: "made_with ctx (snd (dbs S)) (snd D2)"
      using m1 made_with_getCompleted [OF e2] by (rule made_with_trans)
    show ?thesis
    proof (cases g)
      case (Return ce)
      obtain c eo where ce: "ce = (c, eo)" by (cases ce)
      show ?thesis
      proof (cases eo)
        case (Some x)
        with assms e1 None e2 Return ce have "S' = S\<lparr>dbs := D2\<rparr>"
          by (simp add: critical_section_def)
        with m2 show ?thesis by simp
      next
        case None3: None
        obtain err S3 where lp:
          "apply_loop (logging conn) ctx (sort_pending (pending_of rt migs c)) (S\<lparr>dbs := D2\<rparr>) = (err, S3)"
          by (cases "apply_loop (logging conn) ctx (sort_pending (pending_of rt migs c)) (S\<lparr>dbs := D2\<rparr>)")
        with assms e1 None e2 Return ce None3 have "S' = S3"
          by (simp add: critical_section_def Let_def)
        moreover from made_with_apply_loop [OF lp] have "made_with ctx (snd D2) (snd (dbs S3))"
          by simp
        ultimately show ?thesis using m2 made_with_trans by blast
      qed
    next
      case (Panic p)
      with assms e1 None e2 have "S' = S\<lparr>dbs := D2\<rparr>" by (simp add: critical_section_def)
      with m2 show ?thesis by simp
    next
      case Blocked
      with assms e1 None e2 have "S' = S\<lparr>dbs := D2\<rparr>" by (simp add: critical_section_def)
      with m2 show ?thesis by simp
    qed
  qed
qed

lemma made_with_mutexGuard:
  assumes "mutexGuard_Guard ctx (logging conn) (critical_section rt migs (logging conn)) S = (r, S')"
  shows "made_with ctx (snd (dbs S)) (snd (dbs S'))"
proof (cases "mu S")
  case True
  with assms have "S' = S" by (simp add: mutexGuard_Guard_def)
  then show ?thesis by (simp add: made_with_refl)
next
  case False
  obtain r2 S2 where f: "critical_section rt migs (logging conn) ctx (S\<lparr>mu := True\<rparr>) = (r2, S2)"
    by (cases "critical_section rt migs (logging conn) ctx (S\<lparr>mu := True\<rparr>)")
  from assms False f have "dbs S' = dbs S2"
    by (cases r2) (auto simp: mutexGuard_Guard_def)
  with made_with_critical_section [OF f] show ?thesis by simp
qed

lemma made_with_GuardMySQL:
  assumes "GuardMySQL ctx (logging conn) (critical_section rt migs (logging conn)) S = (r, S')"
  shows "made_with ctx (snd (dbs S)) (snd (dbs S'))"
proof -
  obtain r1 D1 where e1: "ExecContext (logging conn) ctx sql_get_lock [] (dbs S) = (r1, D1)"
    by (cases "ExecContext (logging conn) ctx sql_get_lock [] (dbs S)")
  have m1: "made_with ctx (snd (dbs S)) (snd D1)" using e1 by (rule made_with_Exec)
  show ?thesis
  proof (cases r1)
    case (Some c)
    with assms e1 have "S' = S\<lparr>dbs := D1\<rparr>" by (simp add: GuardMySQL_def)
    with m1 show ?thesis by simp
  next
    case None
    obtain r2 S2 where f: "critical_section rt migs (logging conn) ctx (S\<lparr>dbs := D1\<rparr>) = (r2, S2)"
      by (cases "critical_section rt migs (logging conn) ctx (S\<lparr>dbs := D1\<rparr>)")
    from made_with_critical_section [OF f] have m2: "made_with ctx (snd (dbs S)) (snd (dbs S2))"
      using m1 made_with_trans by fastforce
    obtain re D3 where rl: "ExecContext (logging conn) ctx sql_release_lock [] (dbs S2) = (re, D3)"
      by (cases "ExecContext (logging conn) ctx sql_release_lock [] (dbs S2)")
    have m3: "made_with ctx (snd (dbs S)) (snd D3)"
      using m2 made_with_Exec [OF rl] by (rule made_with_trans)
    show ?thesis
    proof (cases r2)
      case (Return err)
      with assms e1 None f rl have "S' = S2\<lparr>dbs := D3\<rparr>" by (simp add: GuardMySQL_def)
      with m3 show ?thesis by simp
    next
      case (Panic p)
      with assms e1 None f rl have "S' = S2\<lparr>dbs := D3\<rparr>" by (simp add: GuardMySQL_def)
      with m3 show ?thesis by simp
    next
      case Blocked
      with assms e1 None f have "S' = S2" by (simp add: GuardMySQL_def)
      with m2 show ?thesis by simp
    qed
  qed
qed

lemma made_with_Migrate:
  assumes d: "db m = logging conn"
    and g: "guard m = mutexGuard_Guard \<or> guard m = GuardMySQL"
  shows "made_with ctx (snd (dbs s)) (snd (dbs (snd (Migrate rt m ctx s))))"
proof (cases "loadMigrations (Sum256 rt) (fs m) (glob m)")
  case (Inl e)
  then show ?thesis by (simp add: Migrate_def made_with_refl)
next
  case (Inr migs)
  obtain r1 D1 where c1: "Conn (db m) ctx (dbs s) = (r1, D1)"
    by (cases "Conn (db m) ctx (dbs s)")
  have m1: "made_with ctx (snd (dbs s)) (snd D1)"
    using c1 d made_with_Conn by fastforce
  show ?thesis
  proof (cases r1)
    case (Some e)
    with Inr c1 m1 show ?thesis by (simp add: Migrate_def)
  next
    case None
    let ?S1 = "s\<lparr>applied := [], dbs := D1\<rparr>"
    obtain r2 S2 where gd:
      "guard m ctx (db m) (critical_section rt migs (db m)) ?S1 = (r2, S2)"
      by (cases "guard m ctx (db m) (critical_section rt migs (db m)) ?S1")
    have "made_with ctx (snd (dbs ?S1)) (snd (dbs S2))"
      using g
    proof
      assume "guard m = mutexGuard_Guard"
      with gd d have "mutexGuard_Guard ctx (logging conn) (critical_section rt migs (logging conn)) ?S1 = (r2, S2)"
        by simp
      then show ?thesis by (rule made_with_mutexGuard)
    next
      assume "guard m = GuardMySQL"
      with gd d have "GuardMySQL ctx (logging conn) (critical_section rt migs (logging conn)) ?S1 = (r2, S2)"
        by simp
      then show ?thesis by (rule made_with_GuardMySQL)
    qed
    then have m2: "made_with ctx (snd (dbs s)) (snd (dbs S2))"
      using m1 made_with_trans by fastforce
    have m3: "made_with ctx (snd (dbs s)) (snd (Close (db m) (dbs S2)))"
      using m2 made_with_Close [of ctx "dbs S2" conn] d made_with_trans by fastforce
    show ?thesis
    proof (cases r2)
      case (Return err)
      with Inr c1 None gd m3 show ?thesis by (simp add: Migrate_def)
    next
      case (Panic p)
      with Inr c1 None gd m3 show ?thesis by (simp add: Migrate_def)
    next
      case Blocked
      with Inr c1 None gd m2 show ?thesis by (simp add: Migrate_def)
    qed
  qed
qed

section \<open>The order of the calls\<close>

text \<open>
  C3. A run of \<^verbatim>\<open>Migrate\<close> on an instrumented connection, under either guard of the
  source, that gets as far as the loop. \<open>P\<close> is the pending list after the sort: it is in
  strictly ascending order of \<^verbatim>\<open>strings.Compare\<close> on the names, the byte-wise
  lexicographic order, whatever the order of discovery and of the map. The calls made on
  the connection after the \<^verbatim>\<open>SELECT\<close> are, in this order: for each of the first \<open>k\<close>
  units of \<open>P\<close> its body and then the write of its record; when the loop failed, the
  body of unit \<open>k\<close> alone or its body and the write of its record; the release of the
  lock under \<^verbatim>\<open>GuardMySQL\<close>; the close. The names returned are those of the first \<open>k\<close>
  units of \<open>P\<close>, in that order, and \<open>k\<close> is the length of \<open>P\<close> when the loop did not fail.
\<close>

theorem Migrate_applies_in_name_order:
  assumes perm: "\<forall>kvs. mset (range_order rt kvs) = mset kvs"
    and d: "db m = logging conn"
    and ld: "loadMigrations (Sum256 rt) (fs m) (glob m) = Inr migs"
    and cn: "Conn (db m) ctx (dbs s) = (None, D0)"
    and enter: "guard m = mutexGuard_Guard \<and> mu s = False \<and> D1 = D0 \<and> unlock = [] \<or>
                guard m = GuardMySQL \<and> ExecContext (db m) ctx sql_get_lock [] D0 = (None, D1) \<and>
                  unlock = [ExecCall ctx sql_release_lock []]"
    and cr: "ExecContext (db m) ctx sql_create [] D1 = (None, D2)"
    and gc: "getCompletedMigrations (db m) ctx D2 = (Return (completed, None), D3)"
    and P: "P = sort_pending (pending_of rt migs completed)"
  shows "sorted_wrt (\<lambda>a b. strings_Compare (Name a) (Name b) < 0) P \<and>
         (\<exists>k tail e err s'.
            Migrate rt m ctx s = (Return (map Name (take k P), err), s') \<and>
            snd (dbs s')
              = snd D3 @ concat (map (unit_calls ctx) (take k P)) @ tail @ unlock @ [CloseCall] \<and>
            (e = None \<and> k = length P \<and> tail = [] \<or>
             (\<exists>c. e = Some c) \<and> k < length P \<and>
               (tail = [ExecCall ctx (SQL (P ! k)) []] \<or> tail = unit_calls ctx (P ! k))) \<and>
            (unlock = [] \<and> err = e \<or>
             unlock = [ExecCall ctx sql_release_lock []] \<and> (\<exists>re. err = errors_Join [e, re])))"
proof -
  have k: "keyed (Sum256 rt) migs" using ld by (rule keyed_loadMigrations)
  have p: "mset (range_order rt migs) = mset migs" using perm by simp
  have "distinct (map Name (pending_of rt migs completed))"
    using k p by (rule pending_of_names_distinct)
  then have A: "sorted_wrt (\<lambda>a b. strings_Compare (Name a) (Name b) < 0) P"
    unfolding P by (rule sort_pending_strict)
  from enter have B: "\<exists>k tail e err s'.
            Migrate rt m ctx s = (Return (map Name (take k P), err), s') \<and>
            snd (dbs s')
              = snd D3 @ concat (map (unit_calls ctx) (take k P)) @ tail @ unlock @ [CloseCall] \<and>
            (e = None \<and> k = length P \<and> tail = [] \<or>
             (\<exists>c. e = Some c) \<and> k < length P \<and>
               (tail = [ExecCall ctx (SQL (P ! k)) []] \<or> tail = unit_calls ctx (P ! k))) \<and>
            (unlock = [] \<and> err = e \<or>
             unlock = [ExecCall ctx sql_release_lock []] \<and> (\<exists>re. err = errors_Join [e, re]))"
  proof
    assume a: "guard m = mutexGuard_Guard \<and> mu s = False \<and> D1 = D0 \<and> unlock = []"
    then have g: "guard m = mutexGuard_Guard" and u: "mu s = False"
      and cn': "Conn (db m) ctx (dbs s) = (None, D1)" and un: "unlock = []"
      using cn by simp_all
    from Migrate_trace_default [OF g u d ld cn' cr gc P] obtain k tail e s' where
      "Migrate rt m ctx s = (Return (map Name (take k P), e), s')"
      "snd (dbs s') = snd D3 @ concat (map (unit_calls ctx) (take k P)) @ tail @ [CloseCall]"
      "e = None \<and> k = length P \<and> tail = [] \<or>
            (\<exists>c. e = Some c) \<and> k < length P \<and>
              (tail = [ExecCall ctx (SQL (P ! k)) []] \<or> tail = unit_calls ctx (P ! k))"
      by blast
    then have "Migrate rt m ctx s = (Return (map Name (take k P), e), s') \<and>
            snd (dbs s')
              = snd D3 @ concat (map (unit_calls ctx) (take k P)) @ tail @ unlock @ [CloseCall] \<and>
            (e = None \<and> k = length P \<and> tail = [] \<or>
             (\<exists>c. e = Some c) \<and> k < length P \<and>
               (tail = [ExecCall ctx (SQL (P ! k)) []] \<or> tail = unit_calls ctx (P ! k))) \<and>
            (unlock = [] \<and> e = e \<or>
             unlock = [ExecCall ctx sql_release_lock []] \<and> (\<exists>re. e = errors_Join [e, re]))"
      using un by simp
    then show ?thesis by blast
  next
    assume a: "guard m = GuardMySQL \<and> ExecContext (db m) ctx sql_get_lock [] D0 = (None, D1) \<and>
                  unlock = [ExecCall ctx sql_release_lock []]"
    then have g: "guard m = GuardMySQL"
      and lk: "ExecContext (db m) ctx sql_get_lock [] D0 = (None, D1)"
      and un: "unlock = [ExecCall ctx sql_release_lock []]"
      by simp_all
    from Migrate_trace_GuardMySQL [OF g d ld cn lk cr gc P] obtain k tail e re s' where
      "Migrate rt m ctx s = (Return (map Name (take k P), errors_Join [e, re]), s')"
      "snd (dbs s') = snd D3 @ concat (map (unit_calls ctx) (take k P)) @ tail
                            @ [ExecCall ctx sql_release_lock []] @ [CloseCall]"
      "e = None \<and> k = length P \<and> tail = [] \<or>
            (\<exists>c. e = Some c) \<and> k < length P \<and>
              (tail = [ExecCall ctx (SQL (P ! k)) []] \<or> tail = unit_calls ctx (P ! k))"
      by blast
    then have "Migrate rt m ctx s = (Return (map Name (take k P), errors_Join [e, re]), s') \<and>
            snd (dbs s')
              = snd D3 @ concat (map (unit_calls ctx) (take k P)) @ tail @ unlock @ [CloseCall] \<and>
            (e = None \<and> k = length P \<and> tail = [] \<or>
             (\<exists>c. e = Some c) \<and> k < length P \<and>
               (tail = [ExecCall ctx (SQL (P ! k)) []] \<or> tail = unit_calls ctx (P ! k))) \<and>
            (unlock = [] \<and> errors_Join [e, re] = e \<or>
             unlock = [ExecCall ctx sql_release_lock []] \<and>
               (\<exists>re'. errors_Join [e, re] = errors_Join [e, re']))"
      using un by auto
    then show ?thesis by blast
  qed
  from A B show ?thesis by (rule conjI)
qed

theorem Migrate_applies_in_name_order_witness:
  "sort_pending (pending_of ex_rt
      [ex_entry ''002-first.sql'' ''CREATE TABLE t(id INT)'',
       ex_entry ''01-second.sql'' ''INSERT INTO t VALUES (1)''] [])
     = [ex_mig ''002-first.sql'' ''CREATE TABLE t(id INT)'',
        ex_mig ''01-second.sql'' ''INSERT INTO t VALUES (1)''] \<and>
   sorted_wrt (\<lambda>a b. strings_Compare (Name a) (Name b) < 0)
     [ex_mig ''002-first.sql'' ''CREATE TABLE t(id INT)'',
      ex_mig ''01-second.sql'' ''INSERT INTO t VALUES (1)''] \<and>
   Migrate ex_rt ex_logged_migrator Background ex_logged_state
     = (Return ([''002-first.sql'', ''01-second.sql''], None),
        \<lparr>dbs = (\<lparr>flits = Some [''3030322d66697273742e73716c'', ''30312d7365636f6e642e73716c''],
                  user = [''CREATE TABLE t(id INT)'', ''INSERT INTO t VALUES (1)'']\<rparr>,
                 [ConnCall Background,
                  ExecCall Background sql_create [],
                  QueryCall Background sql_select,
                  ExecCall Background ''CREATE TABLE t(id INT)'' [],
                  ExecCall Background sql_insert [''3030322d66697273742e73716c''],
                  ExecCall Background ''INSERT INTO t VALUES (1)'' [],
                  ExecCall Background sql_insert [''30312d7365636f6e642e73716c''],
                  CloseCall]),
         applied = [''002-first.sql'', ''01-second.sql''], mu = False\<rparr>)"
proof -
  let ?m = "ex_logged_migrator"
  let ?migs = "[ex_entry ''002-first.sql'' ''CREATE TABLE t(id INT)'',
                ex_entry ''01-second.sql'' ''INSERT INTO t VALUES (1)'']"
  let ?P = "[ex_mig ''002-first.sql'' ''CREATE TABLE t(id INT)'',
             ex_mig ''01-second.sql'' ''INSERT INTO t VALUES (1)'']"
  let ?D0 = "(\<lparr>flits = None, user = [] :: string list\<rparr>, [ConnCall Background])"
  let ?D2 = "(\<lparr>flits = Some [], user = [] :: string list\<rparr>,
              [ConnCall Background, ExecCall Background sql_create []])"
  let ?D3 = "(\<lparr>flits = Some [], user = [] :: string list\<rparr>,
              [ConnCall Background, ExecCall Background sql_create [], QueryCall Background sql_select])"
  have perm: "\<forall>kvs. mset (range_order ex_rt kvs) = mset kvs" by (simp add: ex_rt_def)
  have d: "db ?m = logging (mem_driver ex_effect)" by (simp add: ex_logged_migrator_def New_def)
  have ld: "loadMigrations (Sum256 ex_rt) (fs ?m) (glob ?m) = Inr ?migs" by code_simp
  have cn: "Conn (db ?m) Background (dbs ex_logged_state) = (None, ?D0)" by code_simp
  have g: "guard ?m = mutexGuard_Guard" by (simp add: ex_logged_migrator_def New_def)
  have u: "mu ex_logged_state = False" by (simp add: ex_logged_state_def)
  from g u have enter:
    "guard ?m = mutexGuard_Guard \<and> mu ex_logged_state = False \<and> ?D0 = ?D0 \<and> ([] :: call list) = [] \<or>
     guard ?m = GuardMySQL \<and> ExecContext (db ?m) Background sql_get_lock [] ?D0 = (None, ?D0) \<and>
       [] = [ExecCall Background sql_release_lock []]"
    by simp
  have cr: "ExecContext (db ?m) Background sql_create [] ?D0 = (None, ?D2)" by code_simp
  have gc: "getCompletedMigrations (db ?m) Background ?D2 = (Return ([], None), ?D3)" by code_simp
  have P: "?P = sort_pending (pending_of ex_rt ?migs [])" by code_simp
  note T = Migrate_applies_in_name_order [OF perm d ld cn enter cr gc P]
  have w1: "sort_pending (pending_of ex_rt ?migs []) = ?P" using P by simp
  have w2: "sorted_wrt (\<lambda>a b. strings_Compare (Name a) (Name b) < 0) ?P"
    using T by (rule conjunct1)
  have w3: "Migrate ex_rt ex_logged_migrator Background ex_logged_state
     = (Return ([''002-first.sql'', ''01-second.sql''], None),
        \<lparr>dbs = (\<lparr>flits = Some [''3030322d66697273742e73716c'', ''30312d7365636f6e642e73716c''],
                  user = [''CREATE TABLE t(id INT)'', ''INSERT INTO t VALUES (1)'']\<rparr>,
                 [ConnCall Background,
                  ExecCall Background sql_create [],
                  QueryCall Background sql_select,
                  ExecCall Background ''CREATE TABLE t(id INT)'' [],
                  ExecCall Background sql_insert [''3030322d66697273742e73716c''],
                  ExecCall Background ''INSERT INTO t VALUES (1)'' [],
                  ExecCall Background sql_insert [''30312d7365636f6e642e73716c''],
                  CloseCall]),
         applied = [''002-first.sql'', ''01-second.sql''], mu = False\<rparr>)"
    by code_simp
  from w1 w2 w3 show ?thesis by (intro conjI)
qed

section \<open>Cancellation\<close>

text \<open>
  C7, as the code has it. Under either guard of the source, every call that a run of
  \<^verbatim>\<open>Migrate\<close> makes on the connection (\<^verbatim>\<open>db.Conn\<close>, the statements of the lock, the
  creation of the table, the \<^verbatim>\<open>SELECT\<close>, each body and each write of a record) is made
  with the context of the caller. \<^verbatim>\<open>GuardMySQL\<close> hands the context to the statement that
  takes the lock; when that statement fails, as it does on a connection that honours a
  context that is done, the guard returns the error without running the critical section or
  releasing, and \<^verbatim>\<open>Migrate\<close> returns no names. The default guard locks its mutex without
  the context: while the mutex is held the call waits, whatever the context is. Once it
  holds the mutex it runs the critical section with the context, and when the first
  statement fails there, nothing is applied.
\<close>

theorem guards_and_cancellation:
  "(ExecContext conn ctx sql_get_lock [] (dbs s) = (Some err, d1) \<longrightarrow>
      GuardMySQL ctx conn f s = (Return (Some err), s\<lparr>dbs := d1\<rparr>)) \<and>
   (guard m = GuardMySQL \<and>
    loadMigrations (Sum256 rt) (fs m) (glob m) = Inr migs \<and>
    Conn (db m) ctx (dbs s) = (None, d0) \<and>
    ExecContext (db m) ctx sql_get_lock [] d0 = (Some err, d1) \<longrightarrow>
      Migrate rt m ctx s
        = (Return ([], Some err), s\<lparr>applied := [], dbs := Close (db m) d1\<rparr>)) \<and>
   (mu s \<longrightarrow> mutexGuard_Guard ctx conn f s = (Blocked, s)) \<and>
   (mu s = False \<and> ExecContext conn ctx sql_create [] (dbs s) = (Some err, d1) \<longrightarrow>
      mutexGuard_Guard ctx conn (critical_section rt migs conn) s
        = (Return (Some (Errorf_w ''create flits table'' err)), s\<lparr>dbs := d1\<rparr>)) \<and>
   (db M = logging lconn \<and> (guard M = mutexGuard_Guard \<or> guard M = GuardMySQL) \<longrightarrow>
      (\<exists>calls. snd (dbs (snd (Migrate rt M ctx S))) = snd (dbs S) @ calls \<and>
         (\<forall>c \<in> set calls. call_ctx c = Some ctx \<or> c = CloseCall)))"
proof (intro conjI impI)
  assume "ExecContext conn ctx sql_get_lock [] (dbs s) = (Some err, d1)"
  then show "GuardMySQL ctx conn f s = (Return (Some err), s\<lparr>dbs := d1\<rparr>)"
    by (rule GuardMySQL_lock_fails)
next
  assume a: "guard m = GuardMySQL \<and>
    loadMigrations (Sum256 rt) (fs m) (glob m) = Inr migs \<and>
    Conn (db m) ctx (dbs s) = (None, d0) \<and>
    ExecContext (db m) ctx sql_get_lock [] d0 = (Some err, d1)"
  then have "ExecContext (db m) ctx sql_get_lock [] (dbs (s\<lparr>applied := [], dbs := d0\<rparr>)) = (Some err, d1)"
    by simp
  then have "GuardMySQL ctx (db m) (critical_section rt migs (db m)) (s\<lparr>applied := [], dbs := d0\<rparr>)
               = (Return (Some err), s\<lparr>applied := [], dbs := d0, dbs := d1\<rparr>)"
    by (rule GuardMySQL_lock_fails)
  with a show "Migrate rt m ctx s
        = (Return ([], Some err), s\<lparr>applied := [], dbs := Close (db m) d1\<rparr>)"
    by (simp add: Migrate_def)
next
  assume "mu s"
  then show "mutexGuard_Guard ctx conn f s = (Blocked, s)"
    by (rule mutexGuard_locked)
next
  assume "mu s = False \<and> ExecContext conn ctx sql_create [] (dbs s) = (Some err, d1)"
  then show "mutexGuard_Guard ctx conn (critical_section rt migs conn) s
        = (Return (Some (Errorf_w ''create flits table'' err)), s\<lparr>dbs := d1\<rparr>)"
    using mutexGuard_create_fails [of s conn ctx err d1 rt migs] by simp
next
  assume "db M = logging lconn \<and> (guard M = mutexGuard_Guard \<or> guard M = GuardMySQL)"
  then have "made_with ctx (snd (dbs S)) (snd (dbs (snd (Migrate rt M ctx S))))"
    using made_with_Migrate [of M lconn ctx S rt] by simp
  then show "\<exists>calls. snd (dbs (snd (Migrate rt M ctx S))) = snd (dbs S) @ calls \<and>
         (\<forall>c \<in> set calls. call_ctx c = Some ctx \<or> c = CloseCall)"
    by (simp only: made_with_def)
qed

theorem guards_and_cancellation_witness:
  "ExecContext (mem_driver ex_effect) Canceled sql_get_lock [] (dbs ex_state)
     = (Some ctx_error, dbs ex_state) \<and>
   GuardMySQL Canceled (mem_driver ex_effect)
       (critical_section ex_rt [] (mem_driver ex_effect)) ex_state
     = (Return (Some ctx_error), ex_state) \<and>
   Migrate ex_rt
       (New (mem_driver (\<lambda>q u. Inl (Opaque ''lock wait interrupted''))) ex_fs [WithGuard GuardMySQL])
       Background ex_state
     = (Return ([], Some (Opaque ''lock wait interrupted'')), ex_state) \<and>
   mu (ex_state\<lparr>mu := True\<rparr>) \<and>
   mutexGuard_Guard Background (mem_driver ex_effect)
       (critical_section ex_rt [] (mem_driver ex_effect)) (ex_state\<lparr>mu := True\<rparr>)
     = (Blocked, ex_state\<lparr>mu := True\<rparr>) \<and>
   mu ex_state = False \<and>
   ExecContext (mem_driver ex_effect) Canceled sql_create [] (dbs ex_state)
     = (Some ctx_error, dbs ex_state) \<and>
   mutexGuard_Guard Canceled (mem_driver ex_effect)
       (critical_section ex_rt [] (mem_driver ex_effect)) ex_state
     = (Return (Some (Errorf_w ''create flits table'' ctx_error)), ex_state) \<and>
   snd (dbs (snd (Migrate ex_rt (New (logging ex_driver_ignores_ctx) ex_fs []) Canceled
                    ex_logged_state)))
     = [ConnCall Canceled,
        ExecCall Canceled sql_create [],
        QueryCall Canceled sql_select,
        ExecCall Canceled ''CREATE TABLE t(id INT)'' [],
        ExecCall Canceled sql_insert [''3030322d66697273742e73716c''],
        ExecCall Canceled ''INSERT INTO t VALUES (1)'' [],
        ExecCall Canceled sql_insert [''30312d7365636f6e642e73716c''],
        CloseCall] \<and>
   made_with Canceled (snd (dbs ex_logged_state))
     (snd (dbs (snd (Migrate ex_rt (New (logging ex_driver_ignores_ctx) ex_fs []) Canceled
                       ex_logged_state))))"
proof -
  let ?conn = "mem_driver ex_effect"
  let ?f = "critical_section ex_rt [] ?conn"
  have st: "ex_state\<lparr>dbs := dbs ex_state\<rparr> = ex_state" by simp
  have h1: "ExecContext ?conn Canceled sql_get_lock [] (dbs ex_state) = (Some ctx_error, dbs ex_state)"
    by (simp add: mem_driver_def mem_Exec_def)
  note T1 = guards_and_cancellation [of ?conn Canceled ex_state ctx_error "dbs ex_state" ?f,
      THEN conjunct1, rule_format, OF h1]
  have w1: "GuardMySQL Canceled ?conn ?f ex_state = (Return (Some ctx_error), ex_state)"
    using T1 by (simp only: st)
  let ?eff = "\<lambda>(q :: string) (u :: string list). (Inl (Opaque ''lock wait interrupted'') :: error + string list)"
  let ?m = "New (mem_driver ?eff) ex_fs [WithGuard GuardMySQL]"
  let ?migs = "[ex_entry ''002-first.sql'' ''CREATE TABLE t(id INT)'',
                ex_entry ''01-second.sql'' ''INSERT INTO t VALUES (1)'']"
  have k1: "guard ?m = GuardMySQL" by (simp add: New_def WithGuard_def)
  have k2: "loadMigrations (Sum256 ex_rt) (fs ?m) (glob ?m) = Inr ?migs" by code_simp
  have k3: "Conn (db ?m) Background (dbs ex_state) = (None, dbs ex_state)"
    by (simp add: New_def WithGuard_def mem_driver_def)
  have k4: "ExecContext (db ?m) Background sql_get_lock [] (dbs ex_state)
              = (Some (Opaque ''lock wait interrupted''), dbs ex_state)"
    by code_simp
  from k1 k2 k3 k4 have k: "guard ?m = GuardMySQL \<and>
      loadMigrations (Sum256 ex_rt) (fs ?m) (glob ?m) = Inr ?migs \<and>
      Conn (db ?m) Background (dbs ex_state) = (None, dbs ex_state) \<and>
      ExecContext (db ?m) Background sql_get_lock [] (dbs ex_state)
        = (Some (Opaque ''lock wait interrupted''), dbs ex_state)"
    by (intro conjI)
  note TM = guards_and_cancellation [where m = ?m and rt = ex_rt and s = ex_state
      and ctx = Background and migs = ?migs and ?d0.0 = "dbs ex_state" and ?d1.0 = "dbs ex_state"
      and err = "Opaque ''lock wait interrupted''",
      THEN conjunct2, THEN conjunct1, rule_format, OF k]
  have cl: "Close (db ?m) (dbs ex_state) = dbs ex_state"
    by (simp add: New_def WithGuard_def mem_driver_def)
  have st0: "ex_state\<lparr>applied := [], dbs := dbs ex_state\<rparr> = ex_state"
    by (simp add: ex_state_def)
  have wm: "Migrate ex_rt ?m Background ex_state
              = (Return ([], Some (Opaque ''lock wait interrupted'')), ex_state)"
    using TM by (simp only: cl st0)
  have h2: "mu (ex_state\<lparr>mu := True\<rparr>)" by simp
  note T2 = guards_and_cancellation [of ?conn Background "ex_state\<lparr>mu := True\<rparr>" _ _ ?f,
      THEN conjunct2, THEN conjunct2, THEN conjunct1, rule_format, OF h2]
  have w2: "mutexGuard_Guard Background ?conn ?f (ex_state\<lparr>mu := True\<rparr>)
              = (Blocked, ex_state\<lparr>mu := True\<rparr>)"
    using T2 .
  have h3: "mu ex_state = False" by (simp add: ex_state_def)
  have h4: "ExecContext ?conn Canceled sql_create [] (dbs ex_state) = (Some ctx_error, dbs ex_state)"
    by (simp add: mem_driver_def mem_Exec_def)
  from h3 h4 have h34: "mu ex_state = False \<and>
      ExecContext ?conn Canceled sql_create [] (dbs ex_state) = (Some ctx_error, dbs ex_state)"
    by (rule conjI)
  note T3 = guards_and_cancellation [of ?conn Canceled ex_state ctx_error "dbs ex_state" _ _ ex_rt "[]",
      THEN conjunct2, THEN conjunct2, THEN conjunct2, THEN conjunct1, rule_format, OF h34]
  have w3: "mutexGuard_Guard Canceled ?conn ?f ex_state
              = (Return (Some (Errorf_w ''create flits table'' ctx_error)), ex_state)"
    using T3 by (simp only: st)
  let ?M = "New (logging ex_driver_ignores_ctx) ex_fs [] :: (string list memdb \<times> call list) Migrator"
  have q1: "db ?M = logging ex_driver_ignores_ctx \<and>
            (guard ?M = mutexGuard_Guard \<or> guard ?M = GuardMySQL)"
    by (simp add: New_def)
  note T5 = guards_and_cancellation [where M = ?M and lconn = ex_driver_ignores_ctx
      and rt = ex_rt and ctx = Canceled and S = ex_logged_state,
      THEN conjunct2, THEN conjunct2, THEN conjunct2, THEN conjunct2, rule_format, OF q1]
  have w5: "made_with Canceled (snd (dbs ex_logged_state))
              (snd (dbs (snd (Migrate ex_rt ?M Canceled ex_logged_state))))"
    using T5 by (simp only: made_with_def)
  have w4: "snd (dbs (snd (Migrate ex_rt ?M Canceled ex_logged_state)))
     = [ConnCall Canceled,
        ExecCall Canceled sql_create [],
        QueryCall Canceled sql_select,
        ExecCall Canceled ''CREATE TABLE t(id INT)'' [],
        ExecCall Canceled sql_insert [''3030322d66697273742e73716c''],
        ExecCall Canceled ''INSERT INTO t VALUES (1)'' [],
        ExecCall Canceled sql_insert [''30312d7365636f6e642e73716c''],
        CloseCall]"
    by code_simp
  from h1 w1 wm h2 w2 h3 h4 w3 w4 w5 show ?thesis by (intro conjI)
qed

text \<open>
  The statement of C7 fails for the default guard: with the mutex held and the context
  done, the call of the guard does not return.
\<close>

theorem mutexGuard_waits_despite_cancellation:
  "mutexGuard_Guard Canceled (mem_driver ex_effect)
       (critical_section ex_rt [] (mem_driver ex_effect)) (ex_state\<lparr>mu := True\<rparr>)
     = (Blocked, ex_state\<lparr>mu := True\<rparr>)"
  by (simp add: mutexGuard_Guard_def)

end
